theory Spec2Isabelle
  imports Complex_Main "HOL-Library.AList" "HOL-Library.Monad_Syntax"
begin

section \<open>Data model\<close>

text \<open>
  The Python sources compute with floats (timestamps from \<^verbatim>\<open>time.time()\<close>, scores,
  velocities) and with integer pixel coordinates. Floats are modelled by \<^typ>\<open>real\<close>, so
  rounding is idealised away; pixel coordinates are \<^typ>\<open>int\<close>. Python's
  \<^verbatim>\<open>int(x)\<close> on a float truncates towards zero.
\<close>

definition py_int :: "real \<Rightarrow> int" where
  "py_int r = (if 0 \<le> r then \<lfloor>r\<rfloor> else \<lceil>r\<rceil>)"

text \<open>
  A float division raises \<^verbatim>\<open>ZeroDivisionError\<close> on a zero divisor; \<open>None\<close> stands
  for the raised exception.
\<close>

definition py_div :: "real \<Rightarrow> real \<Rightarrow> real option" where
  "py_div a b = (if b = 0 then None else Some (a / b))"

subsection \<open>Double precision\<close>

text \<open>
  Where a float is truncated by \<^verbatim>\<open>int()\<close> the rounding of the double arithmetic
  decides the pixel, so there the operations are rounded as binary64 does: to the nearest
  value with 53 significant bits, ties to the even one, with gradual underflow below the
  exponent -1022. \<open>rne\<close> rounds a real to the nearest integer, ties to even; \<open>expo\<close> is
  the binary exponent of the interval a value lies in; \<open>fl\<close> is the rounding. Overflow
  to infinity is not modelled. The other float computations (scores, velocities, time
  differences) are over the reals.
\<close>

definition rne :: "real \<Rightarrow> int" where
  "rne x = (let f = \<lfloor>x\<rfloor>; r = x - of_int f in
            if r < 1 / 2 then f else if 1 / 2 < r then f + 1
            else if even f then f else f + 1)"

definition expo :: "real \<Rightarrow> int" where
  "expo z = (if \<bar>z\<bar> < 2 powr (- 1022) then - 1022 else \<lfloor>log 2 \<bar>z\<bar>\<rfloor>)"

definition fl :: "real \<Rightarrow> real" where
  "fl z = of_int (rne (z / 2 powr of_int (expo z - 52))) * 2 powr of_int (expo z - 52)"

datatype phase = Unknown | Ascending | Hover | Descending

text \<open>
  A detection is a Python dict. Only the keys read or written by the tracker and by the
  targeting code are kept; a key that may be absent is an option. (The keys
  \<^verbatim>\<open>type\<close>, \<^verbatim>\<open>bbox\<close>, \<^verbatim>\<open>class_name\<close> and \<^verbatim>\<open>area\<close> are not read by
  the functions below.)
\<close>

record detection =
  center :: "int \<times> int"
  confidence :: "real option"
  track_id :: "nat option"
  phase :: "phase option"
  predicted_pos :: "(int \<times> int) option"
  velocity :: "(real \<times> real) option"

text \<open>\<^verbatim>\<open>math.sqrt((x1 - x2)**2 + (y1 - y2)**2)\<close>, as written in both classes.\<close>

definition calculate_distance :: "int \<times> int \<Rightarrow> int \<times> int \<Rightarrow> real" where
  "calculate_distance point1 point2 =
     sqrt (real_of_int ((fst point1 - fst point2)\<^sup>2 + (snd point1 - snd point2)\<^sup>2))"

section \<open>The bot (real\_bot.py)\<close>

text \<open>\<^verbatim>\<open>CAPTURE_REGION = (913, 171, 1885, 979)\<close> from the configuration.\<close>

definition capture_left :: int where "capture_left = 913"
definition capture_top :: int where "capture_top = 171"
definition capture_right :: int where "capture_right = 1885"
definition capture_bottom :: int where "capture_bottom = 979"

definition frame_height :: int where "frame_height = capture_bottom - capture_top"
definition frame_width :: int where "frame_width = capture_right - capture_left"
definition swipe_length :: int where "swipe_length = 60"
definition swipe_duration :: real where "swipe_duration = 0.020"

text \<open>
  The attributes of \<^verbatim>\<open>FruitNinjaBot\<close> that change, and the cooldown. The dict
  \<^verbatim>\<open>potential_pomegranates\<close> maps a fruit id to \<open>(first_seen_time, slice_count)\<close>;
  it is an association list in insertion order. The key \<^verbatim>\<open>f"{x}_{y}"\<close> is an
  injective rendering of the integer pair \<open>(x, y)\<close>, so the pair itself is the key.
\<close>

record bot =
  cooldown :: real
  last_swipe_time :: real
  frame_counter :: nat
  total_swipes :: nat
  total_fruits_cut :: nat
  potential_pomegranates :: "((int \<times> int) \<times> (real \<times> nat)) list"
  rapid_mode :: bool
  rapid_mode_end_time :: real

definition init_bot :: bot where
  "init_bot = \<lparr> cooldown = 0.1, last_swipe_time = 0, frame_counter = 0, total_swipes = 0,
     total_fruits_cut = 0, potential_pomegranates = [], rapid_mode = False,
     rapid_mode_end_time = 0 \<rparr>"

datatype action = NoAction | Swipe "int \<times> int" "int \<times> int" real

fun is_swipe :: "action \<Rightarrow> bool" where
  "is_swipe NoAction = False"
| "is_swipe (Swipe s e d) = True"

subsection \<open>Safety\<close>

fun safety_loop :: "detection \<Rightarrow> detection list \<Rightarrow> real \<Rightarrow> real" where
  "safety_loop fruit [] min_safety = min_safety"
| "safety_loop fruit (bomb # bombs) min_safety =
     (if \<bar>fst (center fruit) - fst (center bomb)\<bar> < 60
         \<and> \<bar>snd (center fruit) - snd (center bomb)\<bar> < 25
      then 0
      else safety_loop fruit bombs
             (min min_safety (min 1 (calculate_distance (center fruit) (center bomb) / 100))))"

definition calculate_safety_score :: "detection \<Rightarrow> detection list \<Rightarrow> real" where
  "calculate_safety_score fruit bombs = (if bombs = [] then 1 else safety_loop fruit bombs 1)"

fun is_swipe_safe :: "detection \<Rightarrow> detection list \<Rightarrow> bool" where
  "is_swipe_safe fruit [] = True"
| "is_swipe_safe fruit (bomb # bombs) =
     (if \<bar>fst (center fruit) - fst (center bomb)\<bar> < 70
         \<and> \<bar>snd (center fruit) - snd (center bomb)\<bar> < 30
      then False
      else is_swipe_safe fruit bombs)"

fun adjust_loop :: "int \<Rightarrow> int \<Rightarrow> detection list \<Rightarrow> int \<times> int \<Rightarrow> int \<times> int" where
  "adjust_loop fruit_x fruit_y [] (base_start, base_end) = (base_start, base_end)"
| "adjust_loop fruit_x fruit_y (bomb # bombs) (base_start, base_end) =
     (let bomb_x = fst (center bomb); bomb_y = snd (center bomb) in
      if \<bar>fruit_y - bomb_y\<bar> < 30 then
        if bomb_x < fruit_x \<and> \<bar>bomb_x - fruit_x\<bar> < 80
        then adjust_loop fruit_x fruit_y bombs (max base_start (bomb_x + 25), base_end)
        else if bomb_x > fruit_x \<and> \<bar>bomb_x - fruit_x\<bar> < 80
        then adjust_loop fruit_x fruit_y bombs (base_start, min base_end (bomb_x - 25))
        else adjust_loop fruit_x fruit_y bombs (base_start, base_end)
      else adjust_loop fruit_x fruit_y bombs (base_start, base_end))"

definition adjust_swipe_for_bombs :: "int \<Rightarrow> int \<Rightarrow> detection list \<Rightarrow> int \<times> int" where
  "adjust_swipe_for_bombs fruit_x fruit_y bombs =
     (let (base_start, base_end) =
            adjust_loop fruit_x fruit_y bombs (fruit_x - swipe_length, fruit_x + swipe_length)
      in if base_end - base_start < 40 then (fruit_x - 40, fruit_x + 40)
         else (base_start, base_end))"

subsection \<open>Rapid mode\<close>

definition fruit_id :: "detection \<Rightarrow> int \<times> int" where
  "fruit_id fruit = center fruit"

fun pomegranate_loop :: "bot \<Rightarrow> detection list \<Rightarrow> real \<Rightarrow> bool \<times> bot" where
  "pomegranate_loop st [] current_time = (rapid_mode st, st)"
| "pomegranate_loop st (fruit # fruits) current_time =
     (case map_of (potential_pomegranates st) (fruit_id fruit) of
        None \<Rightarrow> pomegranate_loop st fruits current_time
      | Some (first_seen, slice_count) \<Rightarrow>
          if current_time - first_seen > 1 \<and> slice_count \<ge> 2
          then (True,
                if \<not> rapid_mode st
                then st\<lparr>rapid_mode := True, rapid_mode_end_time := current_time + 3\<rparr>
                else st)
          else pomegranate_loop st fruits current_time)"

definition check_pomegranate_behavior :: "bot \<Rightarrow> detection list \<Rightarrow> real \<Rightarrow> bool \<times> bot" where
  "check_pomegranate_behavior st fruits current_time =
     pomegranate_loop
       (if rapid_mode st \<and> current_time > rapid_mode_end_time st
        then st\<lparr>rapid_mode := False\<rparr> else st)
       fruits current_time"

text \<open>
  The test that \<^verbatim>\<open>check_pomegranate_behavior\<close> applies to each fruit of the frame: its
  id is in the table, first seen more than a second ago, with at least two slices.
\<close>

definition qualifying :: "bot \<Rightarrow> detection \<Rightarrow> real \<Rightarrow> bool" where
  "qualifying st fruit current_time =
     (case map_of (potential_pomegranates st) (fruit_id fruit) of
        None \<Rightarrow> False
      | Some (first_seen, slice_count) \<Rightarrow> current_time - first_seen > 1 \<and> slice_count \<ge> 2)"

subsection \<open>Target selection\<close>

fun best_loop ::
  "detection list \<Rightarrow> detection list \<Rightarrow> detection option \<times> real \<Rightarrow> detection option \<times> real"
where
  "best_loop [] bombs best = best"
| "best_loop (fruit # fruits) bombs (best_target, best_score) =
     (let fruit_y = snd (center fruit);
          height_percentage = real_of_int fruit_y / real_of_int frame_height
      in if \<not> (0.4 \<le> height_percentage \<and> height_percentage \<le> 0.7)
         then best_loop fruits bombs (best_target, best_score)
         else let safety_score = calculate_safety_score fruit bombs
           in if safety_score < 0.6
              then best_loop fruits bombs (best_target, best_score)
              else if \<not> is_swipe_safe fruit bombs
              then best_loop fruits bombs (best_target, best_score)
              else let conf = (case confidence fruit of None \<Rightarrow> 1 | Some c \<Rightarrow> c);
                       position_score = 1 - \<bar>height_percentage - 0.55\<bar>;
                       total_score = safety_score * conf * position_score
                in if total_score > best_score
                   then best_loop fruits bombs (Some fruit, total_score)
                   else best_loop fruits bombs (best_target, best_score))"

definition find_best_swipe_target ::
  "bot \<Rightarrow> detection list \<Rightarrow> detection list \<Rightarrow> real \<Rightarrow> detection option \<times> real"
where
  "find_best_swipe_target st fruits bombs current_time =
     (if fruits = [] \<or> current_time - last_swipe_time st < cooldown st
      then (None, 0)
      else best_loop fruits bombs (None, -1))"

subsection \<open>Swipe execution\<close>

text \<open>
  The clean-up collects the stale keys first and deletes them afterwards, as the source does.
\<close>

definition track_pomegranate_candidate :: "bot \<Rightarrow> detection \<Rightarrow> real \<Rightarrow> bot" where
  "track_pomegranate_candidate st fruit current_time =
     (let pp = (case map_of (potential_pomegranates st) (fruit_id fruit) of
                  None \<Rightarrow> AList.update (fruit_id fruit) (current_time, 1)
                            (potential_pomegranates st)
                | Some (first_seen, slice_count) \<Rightarrow>
                    AList.update (fruit_id fruit) (first_seen, slice_count + 1)
                      (potential_pomegranates st));
          to_remove = map fst (filter (\<lambda>(fid, (seen_time, _)). current_time - seen_time > 2) pp)
      in st\<lparr>potential_pomegranates := foldl (\<lambda>d fid. AList.delete fid d) pp to_remove\<rparr>)"

text \<open>
  The actuator call \<^verbatim>\<open>perform_swipe\<close> is the emitted action; it catches its own
  exceptions, so \<^verbatim>\<open>execute_swipe\<close> always runs to its end.
\<close>

definition execute_swipe :: "bot \<Rightarrow> detection \<Rightarrow> detection list \<Rightarrow> real \<Rightarrow> bool \<Rightarrow> action \<times> bot" where
  "execute_swipe st fruit bombs current_time is_rapid_mode =
     (let fruit_x = fst (center fruit); fruit_y = snd (center fruit);
          (start_x, end_x) = adjust_swipe_for_bombs fruit_x fruit_y bombs;
          abs_start_x = capture_left + max 0 (min start_x frame_width);
          abs_end_x = capture_left + max 0 (min end_x frame_width);
          abs_target_y = capture_top + max 0 (min fruit_y frame_height);
          act = Swipe (abs_start_x, abs_target_y) (abs_end_x, abs_target_y)
                  (swipe_duration * (if is_rapid_mode then 0.8 else 1.0));
          st1 = track_pomegranate_candidate st fruit current_time
      in (act, st1\<lparr>total_swipes := total_swipes st1 + 1, last_swipe_time := current_time\<rparr>))"

subsection \<open>One iteration of the main loop\<close>

text \<open>
  The input of an iteration, after capture, detection and tracking: the targeted fruits
  (their centre replaced by the predicted position), the bombs, the timestamp read at the
  top of the iteration, and what \<^verbatim>\<open>is_game_over\<close> answers for the frame.
\<close>

record frame =
  frame_fruits :: "detection list"
  frame_bombs :: "detection list"
  frame_time :: real
  game_over :: bool

definition frame_step :: "bot \<Rightarrow> frame \<Rightarrow> action \<times> bot" where
  "frame_step st fr =
     (let (is_rapid_mode, st1) = check_pomegranate_behavior st (frame_fruits fr) (frame_time fr) in
      if length (frame_fruits fr) = 0 \<and> frame_counter st1 mod 100 = 0 \<and> game_over fr
      then (NoAction, st1)
      else
        let (best_target, best_score) =
              find_best_swipe_target st1 (frame_fruits fr) (frame_bombs fr) (frame_time fr)
        in case best_target of
             Some target \<Rightarrow>
               if best_score > 0.5
               then (let (act, st2) = execute_swipe st1 target (frame_bombs fr) (frame_time fr) is_rapid_mode
                     in (act, st2\<lparr>total_fruits_cut := total_fruits_cut st2 + 1,
                                  frame_counter := frame_counter st2 + 1\<rparr>))
               else (NoAction, st1\<lparr>frame_counter := frame_counter st1 + 1\<rparr>)
           | None \<Rightarrow> (NoAction, st1\<lparr>frame_counter := frame_counter st1 + 1\<rparr>))"

text \<open>Running the loop over a list of frames; the trace pairs each timestamp with the action.\<close>

fun run_frames :: "bot \<Rightarrow> frame list \<Rightarrow> (real \<times> action) list \<times> bot" where
  "run_frames st [] = ([], st)"
| "run_frames st (fr # frs) =
     (let (act, st1) = frame_step st fr;
          (trace, st2) = run_frames st1 frs
      in ((frame_time fr, act) # trace, st2))"

definition swipe_times :: "(real \<times> action) list \<Rightarrow> real list" where
  "swipe_times trace = map fst (filter (\<lambda>(t, act). is_swipe act) trace)"

section \<open>The tracker (src/vision/fruit\_tracker.py)\<close>

text \<open>
  A history entry is \<open>(time, x, y)\<close>. The dict \<^verbatim>\<open>fruit_history\<close> maps a track id to
  its deque of entries; it is an association list in insertion order, which is the order
  in which Python iterates over it.
\<close>

type_synonym sample = "real \<times> int \<times> int"

record tracker =
  fruit_history :: "(nat \<times> sample list) list"
  next_track_id :: nat
  max_history :: nat

definition gravity :: real where "gravity = 9.8 * 50"

definition init_tracker :: tracker where
  "init_tracker = \<lparr> fruit_history = [], next_track_id = 0, max_history = 10 \<rparr>"

text \<open>\<^verbatim>\<open>deque(maxlen=n).append(s)\<close>: the oldest entries fall out on the left.\<close>

definition append_maxlen :: "nat \<Rightarrow> 'a list \<Rightarrow> 'a \<Rightarrow> 'a list" where
  "append_maxlen n h s = drop (length (h @ [s]) - n) (h @ [s])"

text \<open>\<^verbatim>\<open>np.argmin\<close> on a non-empty row: the first index of the least value.\<close>

fun argmin :: "real list \<Rightarrow> nat" where
  "argmin [] = 0"
| "argmin [x] = 0"
| "argmin (x # y # ys) =
     (let j = argmin (y # ys) in if x \<le> (y # ys) ! j then 0 else Suc j)"

text \<open>
  One row of the cost matrix: the distances from the last position of a track to every
  current fruit; the row of a track with an empty history keeps the zeros of
  \<^verbatim>\<open>np.zeros\<close>.
\<close>

definition cost_row :: "sample list \<Rightarrow> detection list \<Rightarrow> real list" where
  "cost_row history current_fruits =
     (if history \<noteq> []
      then map (\<lambda>fruit. calculate_distance (snd (last history)) (center fruit)) current_fruits
      else map (\<lambda>fruit. 0) current_fruits)"

text \<open>
  The dict \<^verbatim>\<open>assigned\<close> maps a track id to a fruit of \<^verbatim>\<open>current_fruits\<close>. The
  fruits are shared, mutable dicts, so the model stores the reference: the index of the
  fruit in \<^verbatim>\<open>current_fruits\<close>. The loop over the existing tracks carries
  \<^verbatim>\<open>assigned\<close> and \<^verbatim>\<open>used_current\<close>.
\<close>

fun match_tracks ::
  "(nat \<times> sample list) list \<Rightarrow> detection list \<Rightarrow> (nat \<times> nat) list \<times> nat list
     \<Rightarrow> (nat \<times> nat) list \<times> nat list"
where
  "match_tracks [] current_fruits (assigned, used_current) = (assigned, used_current)"
| "match_tracks ((tid, history) # existing) current_fruits (assigned, used_current) =
     (if current_fruits = [] then (assigned, used_current)
      else
        let closest_idx = argmin (cost_row history current_fruits);
            closest_distance = cost_row history current_fruits ! closest_idx
        in if closest_distance < 50
           then match_tracks existing current_fruits
                  (AList.update tid closest_idx assigned, List.insert closest_idx used_current)
           else match_tracks existing current_fruits (assigned, used_current))"

text \<open>The loop that gives a new id to every fruit whose index is not in \<^verbatim>\<open>used_current\<close>.\<close>

fun assign_new ::
  "nat list \<Rightarrow> nat list \<Rightarrow> (nat \<times> nat) list \<times> nat \<Rightarrow> (nat \<times> nat) list \<times> nat"
where
  "assign_new [] used_current (assigned, next_id) = (assigned, next_id)"
| "assign_new (j # js) used_current (assigned, next_id) =
     (if j \<notin> set used_current
      then assign_new js used_current (AList.update next_id j assigned, next_id + 1)
      else assign_new js used_current (assigned, next_id))"

definition assign_track_ids :: "tracker \<Rightarrow> detection list \<Rightarrow> (nat \<times> nat) list \<times> tracker" where
  "assign_track_ids st current_fruits =
     (if fruit_history st = []
      then
        let (assigned, next_id) =
              assign_new [0..<length current_fruits] [] ([], next_track_id st)
        in (assigned, st\<lparr>next_track_id := next_id\<rparr>)
      else
        let (matched, used_current) = match_tracks (fruit_history st) current_fruits ([], []);
            (assigned, next_id) =
              assign_new [0..<length current_fruits] used_current (matched, next_track_id st)
        in (assigned, st\<lparr>next_track_id := next_id\<rparr>))"

subsection \<open>Trajectory parameters and prediction\<close>

definition classify_phase :: "real \<Rightarrow> real \<Rightarrow> phase" where
  "classify_phase velocity_y acceleration_y =
     (if velocity_y < - 5 \<and> acceleration_y < 0 then Ascending
      else if \<bar>velocity_y\<bar> < 15 then Hover
      else if velocity_y > 5 then Descending
      else Unknown)"

text \<open>
  The function reads the last three entries of the history only; the match below is on
  the reversed history, most recent entry first.
\<close>

definition calculate_trajectory_parameters ::
  "sample list \<Rightarrow> (phase \<times> real \<times> real \<times> real) option"
where
  "calculate_trajectory_parameters history =
     (case rev history of
        (t1, x1, y1) # (t2, x2, y2) # older \<Rightarrow>
          let dt = t1 - t2 in
          if dt \<le> 0 then Some (Unknown, 0, 0, 0)
          else do {
            velocity_x \<leftarrow> py_div (real_of_int (x1 - x2)) dt;
            velocity_y \<leftarrow> py_div (real_of_int (y1 - y2)) dt;
            acceleration_y \<leftarrow>
              (case older of
                 (t3, x3, y3) # _ \<Rightarrow>
                   let prev_dt = t2 - t3 in
                   if prev_dt > 0
                   then do {
                     prev_velocity_y \<leftarrow> py_div (real_of_int (y2 - y3)) prev_dt;
                     py_div (velocity_y - prev_velocity_y) dt }
                   else Some (- gravity)
               | [] \<Rightarrow> Some (- gravity));
            Some (classify_phase velocity_y acceleration_y, velocity_x, velocity_y, acceleration_y) }
      | _ \<Rightarrow> Some (Unknown, 0, 0, 0))"

text \<open>
  The extrapolation written inline in \<^verbatim>\<open>update\<close>. The lookahead is the local
  constant \<^verbatim>\<open>predict_time = 0.15\<close>, that is the double nearest to 0.15, and
  \<^verbatim>\<open>predict_time**2\<close> is the double that the power evaluates to (the rounded square).
  The operations are rounded in the order in which Python evaluates them:
  \<^verbatim>\<open>current_y + vel_y * predict_time + 0.5 * accel_y * predict_time**2\<close> is
  \<open>(current_y + vel_y * predict_time) + ((0.5 * accel_y) * predict_time**2)\<close>.
\<close>

definition predict_time :: real where
  "predict_time = 5404319552844595 / 36028797018963968"

definition predict_time_sq :: real where
  "predict_time_sq = 3242591731706757 / 144115188075855872"

definition predict_position :: "int \<times> int \<Rightarrow> real \<Rightarrow> real \<Rightarrow> real \<Rightarrow> int \<times> int" where
  "predict_position pos vel_x vel_y accel_y =
     (py_int (fl (real_of_int (fst pos) + fl (vel_x * predict_time))),
      py_int (fl (fl (real_of_int (snd pos) + fl (vel_y * predict_time))
                  + fl (fl (0.5 * accel_y) * predict_time_sq))))"

subsection \<open>The per-frame update\<close>

text \<open>
  The body of the loop over \<^verbatim>\<open>assigned.items()\<close>. Its state is the history dict, the
  fruits (mutated in place through their reference) and the list of references appended
  to \<^verbatim>\<open>updated_fruits\<close>.
\<close>

definition update_track ::
  "real \<Rightarrow> nat \<Rightarrow> nat \<Rightarrow> nat \<Rightarrow> (nat \<times> sample list) list \<times> detection list \<times> nat list
     \<Rightarrow> ((nat \<times> sample list) list \<times> detection list \<times> nat list) option"
where
  "update_track current_time maxlen tid j s =
     (case s of (fh, store, updated_fruits) \<Rightarrow>
        let fruit = store ! j;
            history = append_maxlen maxlen
                        (case map_of fh tid of None \<Rightarrow> [] | Some h \<Rightarrow> h)
                        (current_time, fst (center fruit), snd (center fruit));
            fh1 = AList.update tid history fh
        in if length history \<ge> 2
           then do {
             (ph, vel_x, vel_y, accel_y) \<leftarrow> calculate_trajectory_parameters history;
             Some (fh1,
                   store[j := fruit\<lparr>track_id := Some tid, phase := Some ph,
                      predicted_pos :=
                        Some (predict_position (center fruit) vel_x vel_y accel_y),
                      velocity := Some (vel_x, vel_y)\<rparr>],
                   updated_fruits @ [j]) }
           else Some (fh1,
                   store[j := fruit\<lparr>track_id := Some tid, phase := Some Unknown,
                      predicted_pos := Some (center fruit), velocity := Some (0, 0)\<rparr>],
                   updated_fruits @ [j]))"

fun update_loop ::
  "real \<Rightarrow> nat \<Rightarrow> (nat \<times> nat) list \<Rightarrow> (nat \<times> sample list) list \<times> detection list \<times> nat list
     \<Rightarrow> ((nat \<times> sample list) list \<times> detection list \<times> nat list) option"
where
  "update_loop current_time maxlen [] s = Some s"
| "update_loop current_time maxlen ((tid, j) # items) s =
     (case update_track current_time maxlen tid j s of
        None \<Rightarrow> None
      | Some s1 \<Rightarrow> update_loop current_time maxlen items s1)"

definition clean_old_tracks :: "real \<Rightarrow> (nat \<times> sample list) list \<Rightarrow> (nat \<times> sample list) list" where
  "clean_old_tracks current_time fh =
     (let to_remove =
            map fst (filter (\<lambda>(tid, history). history \<noteq> [] \<and> current_time - fst (last history) > 1) fh)
      in foldl (\<lambda>d tid. AList.delete tid d) fh to_remove)"

text \<open>
  \<^verbatim>\<open>update\<close> reads the clock itself; the value read is the parameter \<open>current_time\<close>.
  The returned list resolves the references at the end, as the caller sees the fruits.
\<close>

definition update :: "tracker \<Rightarrow> detection list \<Rightarrow> real \<Rightarrow> (detection list \<times> tracker) option" where
  "update st current_fruits current_time =
     (case assign_track_ids st current_fruits of (assigned, st1) \<Rightarrow>
        (case update_loop current_time (max_history st1) assigned
                (fruit_history st1, current_fruits, []) of
           None \<Rightarrow> None
         | Some (fh, store, updated_fruits) \<Rightarrow>
             Some (map (\<lambda>j. store ! j) updated_fruits,
                   st1\<lparr>fruit_history := clean_old_tracks current_time fh\<rparr>)))"

text \<open>A run of frames without detections, at the given clock readings.\<close>

fun run_empty_frames :: "tracker \<Rightarrow> real list \<Rightarrow> tracker option" where
  "run_empty_frames st [] = Some st"
| "run_empty_frames st (t # ts) =
     (case update st [] t of None \<Rightarrow> None | Some (out, st1) \<Rightarrow> run_empty_frames st1 ts)"

text \<open>
  The invariant of the table: it is a dict, so its keys are distinct, and ids are handed
  out in increasing order, so every id in it is below \<^verbatim>\<open>next_track_id\<close>.
\<close>

definition tracker_inv :: "tracker \<Rightarrow> bool" where
  "tracker_inv st \<longleftrightarrow>
     distinct (map fst (fruit_history st))
     \<and> (\<forall>(t, h) \<in> set (fruit_history st). t < next_track_id st)"

section \<open>Concrete scenarios\<close>

text \<open>
  A detection as \<^verbatim>\<open>detect_objects_cv\<close> builds it: a centre and the confidence 1.0,
  no tracking keys yet.
\<close>

definition cv_detection :: "int \<Rightarrow> int \<Rightarrow> detection" where
  "cv_detection x y = \<lparr> center = (x, y), confidence = Some 1, track_id = None, phase = None,
     predicted_pos = None, velocity = None \<rparr>"

definition c5_state :: bot where
  "c5_state = init_bot\<lparr>rapid_mode := True, rapid_mode_end_time := 10,
     potential_pomegranates := [((5, 5), (0, 2))]\<rparr>"

definition c6_state :: bot where
  "c6_state = init_bot\<lparr>potential_pomegranates := [((5, 5), (0, 1))]\<rparr>"

definition frame_at :: "real \<Rightarrow> detection list \<Rightarrow> frame" where
  "frame_at t fs = \<lparr> frame_fruits = fs, frame_bombs = [], frame_time = t, game_over = False \<rparr>"

definition c1_frames :: "frame list" where
  "c1_frames = [frame_at 1 [cv_detection 400 444], frame_at 1.05 [cv_detection 400 444],
                frame_at 1.2 [cv_detection 400 444]]"


definition c7_tracker :: tracker where
  "c7_tracker = \<lparr> fruit_history = [(0, [(0, 5, 5)])], next_track_id = 1, max_history = 10 \<rparr>"

definition c3_tracker :: tracker where
  "c3_tracker = \<lparr> fruit_history = [(0, [(0, 0, 0)]), (1, [(0, 10, 0)])], next_track_id = 2,
     max_history = 10 \<rparr>"

definition c9_tracker :: tracker where
  "c9_tracker = \<lparr> fruit_history = [(0, [(0, 0, 0)])], next_track_id = 1, max_history = 10 \<rparr>"

section \<open>Properties of the safety checks\<close>

lemma safety_loop_corridor:
  "\<exists>b \<in> set bombs. \<bar>fst (center fruit) - fst (center b)\<bar> < 60
       \<and> \<bar>snd (center fruit) - snd (center b)\<bar> < 25
   \<Longrightarrow> safety_loop fruit bombs m = 0"
  by (induction bombs arbitrary: m) auto

lemma safety_loop_no_corridor:
  "\<forall>b \<in> set bombs. \<not> (\<bar>fst (center fruit) - fst (center b)\<bar> < 60
       \<and> \<bar>snd (center fruit) - snd (center b)\<bar> < 25)
   \<Longrightarrow> safety_loop fruit bombs m =
       Min (insert m ((\<lambda>b. min 1 (calculate_distance (center fruit) (center b) / 100)) ` set bombs))"
proof (induction bombs arbitrary: m)
  case Nil
  then show ?case by simp
next
  case (Cons b bombs)
  let ?d = "\<lambda>b. min 1 (calculate_distance (center fruit) (center b) / 100)"
  have "safety_loop fruit (b # bombs) m = safety_loop fruit bombs (min m (?d b))"
    using Cons.prems by auto
  also have "\<dots> = Min (insert (min m (?d b)) (?d ` set bombs))"
    using Cons.prems by (intro Cons.IH) auto
  also have "\<dots> = Min (insert m (?d ` set (b # bombs)))"
  proof (cases "set bombs = {}")
    case True
    then show ?thesis by (simp add: min.commute)
  next
    case False
    then show ?thesis
      by (simp add: min.assoc)
  qed
  finally show ?case .
qed

lemma calculate_safety_score_closed_form:
  "calculate_safety_score fruit bombs =
     (if bombs = [] then 1
      else if \<exists>b \<in> set bombs. \<bar>fst (center fruit) - fst (center b)\<bar> < 60
                \<and> \<bar>snd (center fruit) - snd (center b)\<bar> < 25
      then 0
      else Min ((\<lambda>b. min 1 (calculate_distance (center fruit) (center b) / 100)) ` set bombs))"
proof (cases "bombs = []")
  case True
  then show ?thesis by (simp add: calculate_safety_score_def)
next
  case ne: False
  let ?d = "\<lambda>b. min 1 (calculate_distance (center fruit) (center b) / 100)"
  show ?thesis
  proof (cases "\<exists>b \<in> set bombs. \<bar>fst (center fruit) - fst (center b)\<bar> < 60
                \<and> \<bar>snd (center fruit) - snd (center b)\<bar> < 25")
    case True
    then show ?thesis
      using ne safety_loop_corridor [of bombs fruit 1] by (simp add: calculate_safety_score_def)
  next
    case False
    then have "safety_loop fruit bombs 1 = Min (insert 1 (?d ` set bombs))"
      using safety_loop_no_corridor [of bombs fruit 1] by blast
    also have "\<dots> = Min (?d ` set bombs)"
    proof -
      define S where "S = ?d ` set bombs"
      obtain b0 where b0: "b0 \<in> set bombs"
        using ne by (cases bombs) auto
      have fin: "finite S" and nonempty: "S \<noteq> {}" and mem: "?d b0 \<in> S"
        using b0 by (auto simp: S_def)
      have "Min S \<le> ?d b0"
        using fin mem by (rule Min_le)
      then have "Min S \<le> 1"
        by simp
      then have "Min (insert 1 S) = Min S"
        using fin nonempty by (simp add: Min_insert)
      then show ?thesis
        by (simp only: S_def)
    qed
    finally have "calculate_safety_score fruit bombs = Min (?d ` set bombs)"
      using ne by (simp add: calculate_safety_score_def)
    then show ?thesis
      using ne False by (simp only: if_False)
  qed
qed

text \<open>
  Claim C2. With no bombs the safety score is 1. With at least one bomb it is 0 as soon as
  some bomb lies in the swipe corridor of the fruit (horizontal distance below 60 and
  vertical difference below 25), whatever the straight-line distances are; otherwise it is
  the least, over all bombs, of the normalised distance score: the Euclidean distance
  between fruit and bomb divided by 100, capped at 1.
\<close>

theorem C2_safety_score:
  "calculate_safety_score fruit bombs =
     (if bombs = [] then 1
      else if \<exists>b \<in> set bombs. \<bar>fst (center fruit) - fst (center b)\<bar> < 60
                \<and> \<bar>snd (center fruit) - snd (center b)\<bar> < 25
      then 0
      else Min ((\<lambda>b. min 1
                  (sqrt (real_of_int ((fst (center fruit) - fst (center b))\<^sup>2
                                        + (snd (center fruit) - snd (center b))\<^sup>2)) / 100))
                ` set bombs))"
  using calculate_safety_score_closed_form [of fruit bombs]
  by (simp only: calculate_distance_def)

theorem C2_safety_score_witness:
  "calculate_safety_score (cv_detection 100 100) [cv_detection 400 100, cv_detection 150 110] = 0
   \<and> calculate_safety_score (cv_detection 100 100) [cv_detection 160 100, cv_detection 100 180]
       = 3 / 5
   \<and> calculate_safety_score (cv_detection 100 100) [cv_detection 400 500] = 1
   \<and> calculate_safety_score (cv_detection 100 100) [] = 1"
  using C2_safety_score [of "cv_detection 100 100" "[cv_detection 400 100, cv_detection 150 110]"]
    C2_safety_score [of "cv_detection 100 100" "[cv_detection 160 100, cv_detection 100 180]"]
    C2_safety_score [of "cv_detection 100 100" "[cv_detection 400 500]"]
    C2_safety_score [of "cv_detection 100 100" "[]"]
  by (simp add: cv_detection_def)

lemma is_swipe_safe_iff:
  "is_swipe_safe fruit bombs \<longleftrightarrow>
     (\<forall>b \<in> set bombs. \<not> (\<bar>fst (center fruit) - fst (center b)\<bar> < 70
         \<and> \<bar>snd (center fruit) - snd (center b)\<bar> < 30))"
  by (induction bombs) auto

text \<open>
  Claim C10. If some bomb lies in the corridor of the score override (horizontal distance
  below 60, vertical difference below 25), the safety score is 0 and the independent path
  check \<^verbatim>\<open>is_swipe_safe\<close> rejects the fruit as well: the corridor of the override is
  contained in the corridor of the path check (70 by 30).
\<close>

theorem C10_corridor_containment:
  assumes "b \<in> set bombs"
    and "\<bar>fst (center fruit) - fst (center b)\<bar> < 60"
    and "\<bar>snd (center fruit) - snd (center b)\<bar> < 25"
  shows "calculate_safety_score fruit bombs = 0 \<and> \<not> is_swipe_safe fruit bombs"
proof
  have "bombs \<noteq> []" using assms(1) by auto
  then show "calculate_safety_score fruit bombs = 0"
    using assms safety_loop_corridor [of bombs fruit 1]
    by (auto simp: calculate_safety_score_def)
  show "\<not> is_swipe_safe fruit bombs"
    unfolding is_swipe_safe_iff using assms by force
qed

theorem C10_corridor_containment_witness:
  "cv_detection 150 110 \<in> set [cv_detection 400 100, cv_detection 150 110]
   \<and> \<bar>fst (center (cv_detection 100 100)) - fst (center (cv_detection 150 110))\<bar> < 60
   \<and> \<bar>snd (center (cv_detection 100 100)) - snd (center (cv_detection 150 110))\<bar> < 25
   \<and> calculate_safety_score (cv_detection 100 100) [cv_detection 400 100, cv_detection 150 110] = 0
   \<and> \<not> is_swipe_safe (cv_detection 100 100) [cv_detection 400 100, cv_detection 150 110]"
  using C10_corridor_containment [of "cv_detection 150 110"
      "[cv_detection 400 100, cv_detection 150 110]" "cv_detection 100 100"]
  by (simp add: cv_detection_def)

section \<open>Properties of the targeting loop\<close>

lemmas bot_eval = frame_step_def check_pomegranate_behavior_def find_best_swipe_target_def
  execute_swipe_def track_pomegranate_candidate_def adjust_swipe_for_bombs_def
  calculate_safety_score_def fruit_id_def frame_at_def cv_detection_def init_bot_def
  frame_height_def frame_width_def capture_left_def capture_top_def capture_right_def
  capture_bottom_def swipe_length_def swipe_duration_def swipe_times_def Let_def

lemma pomegranate_loop_result:
  "pomegranate_loop st fruits t =
     (if \<exists>f \<in> set fruits. qualifying st f t
      then (True, if \<not> rapid_mode st
                  then st\<lparr>rapid_mode := True, rapid_mode_end_time := t + 3\<rparr> else st)
      else (rapid_mode st, st))"
  by (induction fruits) (auto simp: qualifying_def split: option.splits)

lemma qualifying_rapid_mode_update [simp]:
  "qualifying (st\<lparr>rapid_mode := b\<rparr>) f t = qualifying st f t"
  by (simp add: qualifying_def)

lemma check_pomegranate_behavior_result:
  "check_pomegranate_behavior st fruits t =
     (let st0 = (if rapid_mode st \<and> t > rapid_mode_end_time st then st\<lparr>rapid_mode := False\<rparr> else st)
      in if \<exists>f \<in> set fruits. qualifying st f t
         then (True, if \<not> rapid_mode st0
                     then st0\<lparr>rapid_mode := True, rapid_mode_end_time := t + 3\<rparr> else st0)
         else (rapid_mode st0, st0))"
  by (simp add: check_pomegranate_behavior_def pomegranate_loop_result Let_def)

text \<open>
  Claim C5, as the code has it. While rapid mode is active it is never switched off before
  the clock passes \<^verbatim>\<open>rapid_mode_end_time\<close>, and the expiry is not moved meanwhile. On a
  call with the clock beyond the expiry the flag is cleared, and it stays cleared exactly
  when no fruit of the frame has a qualifying fingerprint; if one has, the same call
  switches the mode on again, with the expiry three seconds after the current time. The
  returned flag is the mode after the call.
\<close>

theorem C5_mode_expiry:
  assumes "rapid_mode st"
    and "check_pomegranate_behavior st fruits t = (r, st')"
  shows "(\<not> t > rapid_mode_end_time st \<longrightarrow>
            rapid_mode st' \<and> rapid_mode_end_time st' = rapid_mode_end_time st)
       \<and> (t > rapid_mode_end_time st \<longrightarrow>
            (rapid_mode st' \<longleftrightarrow> (\<exists>f \<in> set fruits. qualifying st f t))
            \<and> (rapid_mode st' \<longrightarrow> rapid_mode_end_time st' = t + 3))
       \<and> r = rapid_mode st'"
  using assms
  by (auto simp: check_pomegranate_behavior_result Let_def split: if_splits)

theorem C5_mode_expiry_witness:
  "rapid_mode c5_state
   \<and> check_pomegranate_behavior c5_state [cv_detection 9 9] 11 = (False, c5_state\<lparr>rapid_mode := False\<rparr>)
   \<and> 11 > rapid_mode_end_time c5_state
   \<and> \<not> rapid_mode (c5_state\<lparr>rapid_mode := False\<rparr>)
   \<and> check_pomegranate_behavior c5_state [cv_detection 5 5] 10 = (True, c5_state)
   \<and> \<not> 10 > rapid_mode_end_time c5_state
   \<and> rapid_mode_end_time c5_state = 10"
  using C5_mode_expiry [of c5_state "[cv_detection 9 9]" 11 False "c5_state\<lparr>rapid_mode := False\<rparr>"]
    C5_mode_expiry [of c5_state "[cv_detection 5 5]" 10 True c5_state]
  by (simp add: c5_state_def qualifying_def bot_eval)

text \<open>
  Claim C5 as stated fails: with the mode active, the clock past the expiry and a
  qualifying fingerprint among the fruits of the frame, the mode is active after the call.
\<close>

theorem C5_counterexample:
  "rapid_mode c5_state \<and> 11 > rapid_mode_end_time c5_state
   \<and> qualifying c5_state (cv_detection 5 5) 11
   \<and> check_pomegranate_behavior c5_state [cv_detection 5 5] 11 =
        (True, c5_state\<lparr>rapid_mode := True, rapid_mode_end_time := 14\<rparr>)"
  by (simp add: c5_state_def qualifying_def bot_eval)

lemma check_pomegranate_behavior_keeps:
  "last_swipe_time (snd (check_pomegranate_behavior st fruits t)) = last_swipe_time st"
  "cooldown (snd (check_pomegranate_behavior st fruits t)) = cooldown st"
  "potential_pomegranates (snd (check_pomegranate_behavior st fruits t)) = potential_pomegranates st"
  "frame_counter (snd (check_pomegranate_behavior st fruits t)) = frame_counter st"
  by (simp_all add: check_pomegranate_behavior_result Let_def)

lemma foldl_delete_filter:
  "foldl (\<lambda>d k. AList.delete k d) d ks = filter (\<lambda>(k, v). k \<notin> set ks) d"
proof (induction ks arbitrary: d)
  case Nil
  then show ?case by simp
next
  case (Cons k ks)
  have "filter (\<lambda>(k', v). k' \<notin> set ks) (AList.delete k d) = filter (\<lambda>(k', v). k' \<notin> set (k # ks)) d"
    by (auto simp: AList.delete_eq intro: filter_cong)
  then show ?case
    using Cons.IH [of "AList.delete k d"] by simp
qed

lemma purge_fresh:
  assumes "(fid, (seen, n)) \<in> set (foldl (\<lambda>d k. AList.delete k d) pp
              (map fst (filter (\<lambda>(fid, (seen_time, _)). t - seen_time > 2) pp)))"
  shows "\<not> t - seen > 2"
proof
  assume stale: "t - seen > 2"
  from assms have mem: "(fid, (seen, n)) \<in> set pp"
    and out: "fid \<notin> fst ` set (filter (\<lambda>(fid, (seen_time, _)). t - seen_time > 2) pp)"
    by (auto simp: foldl_delete_filter)
  from mem stale have "(fid, (seen, n)) \<in> set (filter (\<lambda>(fid, (seen_time, _)). t - seen_time > 2) pp)"
    by simp
  then have "fid \<in> fst ` set (filter (\<lambda>(fid, (seen_time, _)). t - seen_time > 2) pp)"
    by (rule image_eqI [rotated]) simp
  with out show False by contradiction
qed

lemma track_pomegranate_candidate_fresh:
  assumes "(fid, (seen, n)) \<in> set (potential_pomegranates (track_pomegranate_candidate st fruit t))"
  shows "\<not> t - seen > 2"
  using assms
  by (auto simp: track_pomegranate_candidate_def Let_def split: option.splits dest: purge_fresh)

lemma track_pomegranate_candidate_keeps:
  "last_swipe_time (track_pomegranate_candidate st fruit t) = last_swipe_time st"
  "cooldown (track_pomegranate_candidate st fruit t) = cooldown st"
  by (simp_all add: track_pomegranate_candidate_def Let_def)


lemma execute_swipe_facts:
  "is_swipe (fst (execute_swipe st fruit bombs t r))"
  "last_swipe_time (snd (execute_swipe st fruit bombs t r)) = t"
  "cooldown (snd (execute_swipe st fruit bombs t r)) = cooldown st"
  "potential_pomegranates (snd (execute_swipe st fruit bombs t r)) =
     potential_pomegranates (track_pomegranate_candidate st fruit t)"
  by (simp_all add: execute_swipe_def Let_def track_pomegranate_candidate_keeps split: prod.splits)

lemma find_best_swipe_target_cooldown:
  "t - last_swipe_time st < cooldown st \<Longrightarrow> find_best_swipe_target st fruits bombs t = (None, 0)"
  by (simp add: find_best_swipe_target_def)

lemma frame_step_cases:
  obtains
    (wait) "fst (frame_step st fr) = NoAction"
       "last_swipe_time (snd (frame_step st fr)) = last_swipe_time st"
       "cooldown (snd (frame_step st fr)) = cooldown st"
       "potential_pomegranates (snd (frame_step st fr)) = potential_pomegranates st"
  | (swipe) target st1 where
       "is_swipe (fst (frame_step st fr))"
       "\<not> frame_time fr - last_swipe_time st < cooldown st"
       "last_swipe_time (snd (frame_step st fr)) = frame_time fr"
       "cooldown (snd (frame_step st fr)) = cooldown st"
       "potential_pomegranates (snd (frame_step st fr)) =
          potential_pomegranates (track_pomegranate_candidate st1 target (frame_time fr))"
proof -
  obtain r st1 where cp: "check_pomegranate_behavior st (frame_fruits fr) (frame_time fr) = (r, st1)"
    by (cases "check_pomegranate_behavior st (frame_fruits fr) (frame_time fr)")
  have keep: "last_swipe_time st1 = last_swipe_time st" "cooldown st1 = cooldown st"
    "potential_pomegranates st1 = potential_pomegranates st"
    using check_pomegranate_behavior_keeps [of st "frame_fruits fr" "frame_time fr"] cp by simp_all
  obtain bt bs where fb:
    "find_best_swipe_target st1 (frame_fruits fr) (frame_bombs fr) (frame_time fr) = (bt, bs)"
    by (cases "find_best_swipe_target st1 (frame_fruits fr) (frame_bombs fr) (frame_time fr)")
  show thesis
  proof (cases "(length (frame_fruits fr) = 0 \<and> frame_counter st1 mod 100 = 0 \<and> game_over fr)
                 \<or> bt = None \<or> \<not> bs > 0.5")
    case True
    then have "fst (frame_step st fr) = NoAction"
      "last_swipe_time (snd (frame_step st fr)) = last_swipe_time st"
      "cooldown (snd (frame_step st fr)) = cooldown st"
      "potential_pomegranates (snd (frame_step st fr)) = potential_pomegranates st"
      using cp fb keep by (auto simp: frame_step_def split: option.splits)
    then show ?thesis by (rule wait)
  next
    case False
    then obtain target where bt: "bt = Some target" and big: "bs > 0.5"
      and ngo: "\<not> (length (frame_fruits fr) = 0 \<and> frame_counter st1 mod 100 = 0 \<and> game_over fr)"
      by auto
    have cooled: "\<not> frame_time fr - last_swipe_time st < cooldown st"
      using fb bt keep by (auto simp: find_best_swipe_target_def split: if_splits)
    obtain act st2 where ex:
      "execute_swipe st1 target (frame_bombs fr) (frame_time fr) r = (act, st2)"
      by (cases "execute_swipe st1 target (frame_bombs fr) (frame_time fr) r")
    have fs: "frame_step st fr = (act, st2\<lparr>total_fruits_cut := total_fruits_cut st2 + 1,
                                  frame_counter := frame_counter st2 + 1\<rparr>)"
      using cp fb bt big ngo ex by (auto simp: frame_step_def)
    have facts: "is_swipe (fst (frame_step st fr))"
      "last_swipe_time (snd (frame_step st fr)) = frame_time fr"
      "cooldown (snd (frame_step st fr)) = cooldown st"
      "potential_pomegranates (snd (frame_step st fr)) =
          potential_pomegranates (track_pomegranate_candidate st1 target (frame_time fr))"
      using execute_swipe_facts [of st1 target "frame_bombs fr" "frame_time fr" r] ex keep
      by (simp_all add: fs)
    show ?thesis
      by (rule swipe [OF facts(1) cooled facts(2) facts(3) facts(4)])
  qed
qed

lemma run_frames_successively:
  "successively (\<lambda>a b. cooldown st \<le> b - a)
     (last_swipe_time st # swipe_times (fst (run_frames st frs)))"
proof (induction frs arbitrary: st)
  case Nil
  then show ?case by (simp add: swipe_times_def)
next
  case (Cons fr frs)
  let ?st1 = "snd (frame_step st fr)"
  have unfold: "swipe_times (fst (run_frames st (fr # frs))) =
      (if is_swipe (fst (frame_step st fr)) then [frame_time fr] else [])
        @ swipe_times (fst (run_frames ?st1 frs))"
    by (simp add: swipe_times_def split: prod.splits)
  show ?case
  proof (cases rule: frame_step_cases [of st fr])
    case wait
    then show ?thesis
      using Cons.IH [of ?st1] unfold by simp
  next
    case (swipe target st1)
    then show ?thesis
      using Cons.IH [of ?st1] unfold by simp
  qed
qed

text \<open>
  Claim C1. When the current time minus the time of the last swipe is below the cooldown,
  \<^verbatim>\<open>find_best_swipe_target\<close> returns \<open>(None, 0.0)\<close> at once and the iteration emits
  no action. The time of the last swipe becomes the current time exactly when a swipe is
  emitted. Hence, over any sequence of frames, each swipe comes at least one cooldown
  after the previous one (and after the initial \<^verbatim>\<open>last_swipe_time\<close>), and for a
  non-negative cooldown any two swipes are at least one cooldown apart.
\<close>

theorem C1_min_action_interval:
  "(frame_time fr - last_swipe_time st < cooldown st \<longrightarrow>
       find_best_swipe_target st (frame_fruits fr) (frame_bombs fr) (frame_time fr) = (None, 0)
       \<and> fst (frame_step st fr) = NoAction)
   \<and> last_swipe_time (snd (frame_step st fr)) =
       (if is_swipe (fst (frame_step st fr)) then frame_time fr else last_swipe_time st)
   \<and> successively (\<lambda>a b. cooldown st \<le> b - a)
       (last_swipe_time st # swipe_times (fst (run_frames st frs)))
   \<and> (0 \<le> cooldown st \<longrightarrow>
       sorted_wrt (\<lambda>a b. cooldown st \<le> b - a)
         (last_swipe_time st # swipe_times (fst (run_frames st frs))))"
proof (intro conjI impI)
  assume early: "frame_time fr - last_swipe_time st < cooldown st"
  then show "find_best_swipe_target st (frame_fruits fr) (frame_bombs fr) (frame_time fr) = (None, 0)"
    by (rule find_best_swipe_target_cooldown)
  show "fst (frame_step st fr) = NoAction"
    using early by (cases rule: frame_step_cases [of st fr]) auto
next
  show "last_swipe_time (snd (frame_step st fr)) =
       (if is_swipe (fst (frame_step st fr)) then frame_time fr else last_swipe_time st)"
    by (cases rule: frame_step_cases [of st fr]) auto
next
  show succ: "successively (\<lambda>a b. cooldown st \<le> b - a)
       (last_swipe_time st # swipe_times (fst (run_frames st frs)))"
    by (rule run_frames_successively)
  assume "0 \<le> cooldown st"
  then have "\<And>x y z. cooldown st \<le> y - x \<Longrightarrow> cooldown st \<le> z - y \<Longrightarrow> cooldown st \<le> z - x"
    by linarith
  then show "sorted_wrt (\<lambda>a b. cooldown st \<le> b - a)
         (last_swipe_time st # swipe_times (fst (run_frames st frs)))"
    using succ successively_iff_sorted_wrt_strong
      [of "last_swipe_time st # swipe_times (fst (run_frames st frs))" "\<lambda>a b. cooldown st \<le> b - a"]
    by blast
qed

lemma c1_frames_trace:
  "swipe_times (fst (run_frames init_bot c1_frames)) = [1, 1.2]"
  by (simp add: c1_frames_def bot_eval)

theorem C1_min_action_interval_witness:
  "frame_time (frame_at 0.05 [cv_detection 400 444]) - last_swipe_time init_bot < cooldown init_bot
   \<and> fst (frame_step init_bot (frame_at 0.05 [cv_detection 400 444])) = NoAction
   \<and> 0 \<le> cooldown init_bot
   \<and> swipe_times (fst (run_frames init_bot c1_frames)) = [1, 1.2]
   \<and> sorted_wrt (\<lambda>a b. cooldown init_bot \<le> b - a)
        (last_swipe_time init_bot # swipe_times (fst (run_frames init_bot c1_frames)))"
  using C1_min_action_interval [of "frame_at 0.05 [cv_detection 400 444]" init_bot c1_frames]
    c1_frames_trace
  by (simp add: init_bot_def frame_at_def)

text \<open>
  Claim C6, as the code has it. The clean-up of \<^verbatim>\<open>potential_pomegranates\<close> runs inside
  \<^verbatim>\<open>track_pomegranate_candidate\<close>, which only \<^verbatim>\<open>execute_swipe\<close> calls. So on every
  iteration that emits a swipe, whatever the mode, no entry first seen more than 2 seconds
  ago is left in the table (the window 2.0 is longer than the activation threshold 1.0);
  on an iteration that emits no swipe the table is unchanged.
\<close>

theorem C6_purge_on_swipe:
  "(is_swipe (fst (frame_step st fr)) \<longrightarrow>
      (\<forall>(fid, (seen, n)) \<in> set (potential_pomegranates (snd (frame_step st fr))).
          \<not> frame_time fr - seen > 2))
   \<and> (\<not> is_swipe (fst (frame_step st fr)) \<longrightarrow>
      potential_pomegranates (snd (frame_step st fr)) = potential_pomegranates st)"
proof (cases rule: frame_step_cases [of st fr])
  case wait
  then show ?thesis by simp
next
  case (swipe target st1)
  then show ?thesis
    by (auto dest: track_pomegranate_candidate_fresh)
qed


theorem C6_purge_on_swipe_witness:
  "is_swipe (fst (frame_step c6_state (frame_at 100 [cv_detection 400 444])))
   \<and> potential_pomegranates (snd (frame_step c6_state (frame_at 100 [cv_detection 400 444])))
       = [((400, 444), (100, 1))]
   \<and> \<not> is_swipe (fst (frame_step c6_state (frame_at 100 [])))
   \<and> potential_pomegranates (snd (frame_step c6_state (frame_at 100 []))) =
       potential_pomegranates c6_state"
  using C6_purge_on_swipe [of c6_state "frame_at 100 [cv_detection 400 444]"]
    C6_purge_on_swipe [of c6_state "frame_at 100 []"]
  by (simp add: c6_state_def bot_eval AList.delete_eq)

text \<open>
  Claim C6 as stated fails: an iteration without a swipe leaves an entry that is 100
  seconds old in the table.
\<close>

theorem C6_counterexample:
  "\<not> is_swipe (fst (frame_step c6_state (frame_at 100 [])))
   \<and> potential_pomegranates (snd (frame_step c6_state (frame_at 100 []))) = [((5, 5), (0, 1))]
   \<and> (100 :: real) - 0 > 2"
  by (simp add: c6_state_def bot_eval)

section \<open>Properties of the tracker\<close>

lemmas tracker_eval = update_def assign_track_ids_def update_track_def clean_old_tracks_def
  calculate_trajectory_parameters_def classify_phase_def
  py_int_def py_div_def cost_row_def calculate_distance_def append_maxlen_def gravity_def
  cv_detection_def init_tracker_def Let_def

subsection \<open>Trajectory parameters\<close>

lemma calculate_trajectory_parameters_total:
  "calculate_trajectory_parameters history \<noteq> None"
  by (auto simp: calculate_trajectory_parameters_def py_div_def Let_def
      split: list.splits prod.splits bind_splits)

text \<open>
  Claim C8, as the code has it. The computation never divides by zero, and when the time
  between the two most recent entries is zero or negative it returns at once the phase
  \<open>unknown\<close> with zero velocity and zero acceleration.
\<close>

theorem C8_nonpositive_dt:
  "calculate_trajectory_parameters history \<noteq> None
   \<and> (t1 - t2 \<le> 0 \<longrightarrow>
        calculate_trajectory_parameters (older @ [(t2, x2, y2), (t1, x1, y1)]) =
          Some (Unknown, 0, 0, 0))"
  by (simp add: calculate_trajectory_parameters_total) (simp add: calculate_trajectory_parameters_def)

theorem C8_nonpositive_dt_witness:
  "(1 :: real) - 1 \<le> 0
   \<and> calculate_trajectory_parameters ([(0, 0, 0)] @ [(1, 0, 0), (1, 0, 10)]) = Some (Unknown, 0, 0, 0)"
  using C8_nonpositive_dt [of "[]" 1 1 "[(0, 0, 0)]" 0 0 0 10]
  by simp

text \<open>
  Claim C8 as stated fails: with equal time stamps the acceleration returned is 0, which
  is not the gravity constant with either sign.
\<close>

theorem C8_counterexample:
  "calculate_trajectory_parameters [(1, 0, 0), (1, 0, 10)] = Some (Unknown, 0, 0, 0)
   \<and> (0 :: real) \<noteq> - gravity \<and> (0 :: real) \<noteq> gravity"
  by (simp add: calculate_trajectory_parameters_def gravity_def)

subsection \<open>Rounding\<close>


lemma rne_of_int [simp]: "rne (of_int n) = n"
  by (simp add: rne_def)






lemma expo_eqI:
  assumes "2 powr real_of_int k \<le> \<bar>z\<bar>" and "\<bar>z\<bar> < 2 powr real_of_int (k + 1)" and "- 1022 \<le> k"
  shows "expo z = k"
proof -
  have "(2::real) powr (- 1022) \<le> 2 powr real_of_int k"
    using assms(3) by (intro powr_mono) simp_all
  then have n: "\<not> \<bar>z\<bar> < 2 powr (- 1022)"
    using assms(1) by linarith
  have pos: "0 < \<bar>z\<bar>"
    using assms(1) by (smt (verit) powr_gt_zero)
  have "\<lfloor>log 2 \<bar>z\<bar>\<rfloor> = k"
    using floor_log_eq_powr_iff [of "\<bar>z\<bar>" 2 k] pos assms(1,2) by simp
  then show ?thesis
    using n by (simp add: expo_def)
qed


lemma expo_minus [simp]: "expo (- z) = expo z"
  by (simp add: expo_def)






lemma fl_zero [simp]: "fl 0 = 0"
  using rne_of_int [of 0] by (simp add: fl_def)



lemma fl_eval:
  assumes "2 powr real_of_int k \<le> \<bar>z\<bar>" and "\<bar>z\<bar> < 2 powr real_of_int (k + 1)" and "- 1022 \<le> k"
  shows "fl z = real_of_int (rne (z / 2 powr real_of_int (k - 52))) * 2 powr real_of_int (k - 52)"
  using expo_eqI [OF assms] by (simp add: fl_def)


subsection \<open>Prediction\<close>

text \<open>
  The two constants are what the code computes: the literal 0.15 denotes the double nearest
  to it, and the power is the rounded square of that double.
\<close>

lemma predict_time_rounded: "fl (3 / 20) = predict_time"
  by (subst fl_eval [where k = "- 3"]) (simp_all add: rne_def Let_def predict_time_def powr_neg_numeral)

lemma predict_time_sq_rounded: "fl (predict_time * predict_time) = predict_time_sq"
  by (subst fl_eval [where k = "- 6"]) (simp_all add: rne_def Let_def predict_time_def predict_time_sq_def powr_neg_numeral)



lemmas fl_at = fl_eval [where k = "- 3"] fl_eval [where k = 0] fl_eval [where k = 1]
  fl_eval [where k = 3] fl_eval [where k = 4]
  fl_eval [where k = 5] fl_eval [where k = 6] fl_eval [where k = 7]


lemma predict_example_rounding: "predict_position (0, 31) 0 12 (- 160) = (0, 30)"
  by (simp add: predict_position_def predict_time_def predict_time_sq_def fl_at rne_def Let_def
      py_int_def powr_neg_numeral)


lemma py_int_of_int [simp]: "py_int (real_of_int n) = n"
  by (simp add: py_int_def)








text \<open>
  For a track with at least two entries \<^verbatim>\<open>update\<close> stores the extrapolation of the
  fruit's centre with the parameters that the trajectory computation returned.
\<close>

lemma update_track_prediction:
  assumes "update_track current_time maxlen tid j (fh, store, upd) = Some (fh1, store1, upd1)"
    and "j < length store"
    and "map_of fh1 tid = Some history"
    and "2 \<le> length history"
    and "calculate_trajectory_parameters history = Some (ph, vel_x, vel_y, accel_y)"
  shows "predicted_pos (store1 ! j) =
           Some (predict_position (center (store ! j)) vel_x vel_y accel_y)"
  using assms
  by (auto simp: update_track_def Let_def AList.update_conv' split: if_splits bind_splits)

subsection \<open>Frames without detections\<close>

lemma match_tracks_no_fruits: "match_tracks existing [] acc = acc"
  by (cases existing; cases acc) auto

lemma assign_track_ids_no_fruits: "assign_track_ids st [] = ([], st)"
  by (simp add: assign_track_ids_def match_tracks_no_fruits)

lemma update_no_fruits:
  "update st [] t = Some ([], st\<lparr>fruit_history := clean_old_tracks t (fruit_history st)\<rparr>)"
  by (simp add: update_def assign_track_ids_no_fruits)

lemma clean_old_tracks_filter:
  "clean_old_tracks t fh =
     filter (\<lambda>(tid, h). tid \<notin> fst ` set (filter (\<lambda>(tid, history). history \<noteq> [] \<and> t - fst (last history) > 1) fh)) fh"
  by (simp add: clean_old_tracks_def foldl_delete_filter)

lemma distinct_clean_old_tracks:
  "distinct (map fst fh) \<Longrightarrow> distinct (map fst (clean_old_tracks t fh))"
  by (simp add: clean_old_tracks_filter distinct_map_filter)

lemma clean_old_tracks_member:
  assumes "distinct (map fst fh)"
  shows "(tid, h) \<in> set (clean_old_tracks t fh) \<longleftrightarrow>
           (tid, h) \<in> set fh \<and> \<not> (h \<noteq> [] \<and> t - fst (last h) > 1)"
proof -
  have uniq: "h' = h" if "(tid, h') \<in> set fh" "(tid, h) \<in> set fh" for h'
    using assms that by (meson eq_key_imp_eq_value)
  show ?thesis
    unfolding clean_old_tracks_filter
    by (auto simp: image_iff dest: uniq) 
qed

lemma run_empty_frames_member:
  assumes "distinct (map fst (fruit_history st))"
  shows "\<exists>st'. run_empty_frames st ts = Some st'
           \<and> distinct (map fst (fruit_history st'))
           \<and> (\<forall>tid h. (tid, h) \<in> set (fruit_history st') \<longleftrightarrow>
                (tid, h) \<in> set (fruit_history st) \<and> (\<forall>t \<in> set ts. \<not> (h \<noteq> [] \<and> t - fst (last h) > 1)))"
  using assms
proof (induction ts arbitrary: st)
  case Nil
  then show ?case by simp
next
  case (Cons t ts)
  let ?st1 = "st\<lparr>fruit_history := clean_old_tracks t (fruit_history st)\<rparr>"
  have d1: "distinct (map fst (fruit_history ?st1))"
    using Cons.prems by (simp add: distinct_clean_old_tracks)
  from Cons.IH [OF d1] obtain st' where st': "run_empty_frames ?st1 ts = Some st'"
    "distinct (map fst (fruit_history st'))"
    "\<forall>tid h. (tid, h) \<in> set (fruit_history st') \<longleftrightarrow>
        (tid, h) \<in> set (fruit_history ?st1) \<and> (\<forall>t \<in> set ts. \<not> (h \<noteq> [] \<and> t - fst (last h) > 1))"
    by blast
  have "run_empty_frames st (t # ts) = Some st'"
    using st'(1) by (simp add: update_no_fruits)
  moreover have "\<forall>tid h. (tid, h) \<in> set (fruit_history st') \<longleftrightarrow>
      (tid, h) \<in> set (fruit_history st) \<and> (\<forall>t \<in> set (t # ts). \<not> (h \<noteq> [] \<and> t - fst (last h) > 1))"
    using st'(3) clean_old_tracks_member [OF Cons.prems] by auto
  ultimately show ?case using st'(2) by blast
qed

text \<open>
  Claim C7. With no detections \<^verbatim>\<open>update\<close> returns no fruit and still runs the expiry
  sweep. A track with a non-empty history stays in the table exactly when the time since
  its last entry is at most one second; over a run of frames without detections it is
  still there exactly when that held at every frame, so it is removed at the first frame
  where the elapsed time exceeds one second and not before.
\<close>

theorem C7_expiry_without_detections:
  assumes "distinct (map fst (fruit_history st))"
    and "(tid, history) \<in> set (fruit_history st)"
    and "history \<noteq> []"
  shows "update st [] t = Some ([], st\<lparr>fruit_history := clean_old_tracks t (fruit_history st)\<rparr>)
       \<and> ((tid, history) \<in> set (clean_old_tracks t (fruit_history st)) \<longleftrightarrow> t - fst (last history) \<le> 1)
       \<and> (\<exists>st'. run_empty_frames st ts = Some st'
             \<and> ((tid, history) \<in> set (fruit_history st') \<longleftrightarrow>
                  (\<forall>t \<in> set ts. t - fst (last history) \<le> 1)))"
proof (intro conjI)
  show "update st [] t = Some ([], st\<lparr>fruit_history := clean_old_tracks t (fruit_history st)\<rparr>)"
    by (rule update_no_fruits)
  show "(tid, history) \<in> set (clean_old_tracks t (fruit_history st)) \<longleftrightarrow> t - fst (last history) \<le> 1"
    using assms clean_old_tracks_member [OF assms(1), of tid history t] by auto
  from run_empty_frames_member [OF assms(1), of ts] obtain st' where
    "run_empty_frames st ts = Some st'"
    "\<forall>tid h. (tid, h) \<in> set (fruit_history st') \<longleftrightarrow>
        (tid, h) \<in> set (fruit_history st) \<and> (\<forall>t \<in> set ts. \<not> (h \<noteq> [] \<and> t - fst (last h) > 1))"
    by blast
  then show "\<exists>st'. run_empty_frames st ts = Some st'
             \<and> ((tid, history) \<in> set (fruit_history st') \<longleftrightarrow>
                  (\<forall>t \<in> set ts. t - fst (last history) \<le> 1))"
    using assms(2,3) by (auto simp: not_less)
qed

theorem C7_expiry_without_detections_witness:
  "distinct (map fst (fruit_history c7_tracker))
   \<and> (0, [(0, 5, 5)]) \<in> set (fruit_history c7_tracker)
   \<and> update c7_tracker [] 1 = Some ([], c7_tracker)
   \<and> update c7_tracker [] 1.5 = Some ([], c7_tracker\<lparr>fruit_history := []\<rparr>)
   \<and> run_empty_frames c7_tracker [0.5, 1] = Some c7_tracker
   \<and> run_empty_frames c7_tracker [0.5, 1, 1.5] = Some (c7_tracker\<lparr>fruit_history := []\<rparr>)"
  using C7_expiry_without_detections [of c7_tracker 0 "[(0, 5, 5)]" 1 "[0.5, 1]"]
  by (simp add: c7_tracker_def update_no_fruits clean_old_tracks_def AList.delete_eq)

subsection \<open>Association\<close>

text \<open>
  Claim C3 fails on the code. After a first frame with fruits at (0, 0) and (10, 0), a
  second frame with a single fruit at (5, 0) assigns that fruit to both tracks: each track
  takes the \<^verbatim>\<open>argmin\<close> of its whole row, and \<^verbatim>\<open>used_current\<close> is consulted only when
  new ids are given. The fruit is returned twice and both histories are extended with it.
\<close>

theorem C3_double_assignment:
  "update init_tracker [cv_detection 0 0, cv_detection 10 0] 0 =
     Some ([(cv_detection 0 0)\<lparr>track_id := Some 0, phase := Some Unknown,
              predicted_pos := Some (0, 0), velocity := Some (0, 0)\<rparr>,
            (cv_detection 10 0)\<lparr>track_id := Some 1, phase := Some Unknown,
              predicted_pos := Some (10, 0), velocity := Some (0, 0)\<rparr>], c3_tracker)
   \<and> fst (assign_track_ids c3_tracker [cv_detection 5 0]) = [(0, 0), (1, 0)]
   \<and> map track_id (fst (the (update c3_tracker [cv_detection 5 0] 0.1))) = [Some 1, Some 1]
   \<and> fruit_history (snd (the (update c3_tracker [cv_detection 5 0] 0.1))) =
        [(0, [(0, 0, 0), (0.1, 5, 0)]), (1, [(0, 10, 0), (0.1, 5, 0)])]"
  by (simp add: c3_tracker_def tracker_eval AList.delete_eq)

text \<open>
  Claim C9 as stated fails: the single track at (0, 0) takes the nearer fruit at (1, 0),
  and the fruit at (10, 0), within 50 pixels of that track alone, gets the new id 1.
\<close>

theorem C9_counterexample:
  "calculate_distance (0, 0) (center (cv_detection 10 0)) < 50
   \<and> fst (assign_track_ids c9_tracker [cv_detection 1 0, cv_detection 10 0]) = [(0, 0), (1, 1)]
   \<and> next_track_id c9_tracker = 1
   \<and> fruit_history (snd (the (update c9_tracker [cv_detection 1 0, cv_detection 10 0] 0.1))) =
        [(0, [(0, 0, 0), (0.1, 1, 0)]), (1, [(0.1, 10, 0)])]"
  by (simp add: c9_tracker_def tracker_eval AList.delete_eq)

subsection \<open>A track and its nearest detection\<close>

lemma argmin_less: "xs \<noteq> [] \<Longrightarrow> argmin xs < length xs"
  by (induction xs rule: argmin.induct) (auto simp: Let_def)

lemma argmin_eqI:
  assumes "j < length xs"
    and "\<forall>i < length xs. xs ! j \<le> xs ! i"
    and "\<forall>i < j. xs ! j < xs ! i"
  shows "argmin xs = j"
  using assms
proof (induction xs arbitrary: j rule: argmin.induct)
  case 1
  then show ?case by simp
next
  case (2 x)
  then show ?case by simp
next
  case (3 x y ys)
  let ?k = "argmin (y # ys)"
  have k: "?k < length (y # ys)"
    by (rule argmin_less) simp
  show ?case
  proof (cases j)
    case 0
    have "(x # y # ys) ! 0 \<le> (x # y # ys) ! Suc ?k"
      using "3.prems"(2) k 0 by auto
    then show ?thesis
      using 0 by (simp add: Let_def)
  next
    case (Suc j')
    have lt: "(y # ys) ! j' < x"
      using "3.prems"(3) Suc by auto
    have "argmin (y # ys) = j'"
    proof (rule "3.IH")
      show "j' < length (y # ys)"
        using "3.prems"(1) Suc by simp
      show "\<forall>i<length (y # ys). (y # ys) ! j' \<le> (y # ys) ! i"
      proof (intro allI impI)
        fix i assume "i < length (y # ys)"
        then have "(x # y # ys) ! j \<le> (x # y # ys) ! Suc i"
          using "3.prems"(2) by auto
        then show "(y # ys) ! j' \<le> (y # ys) ! i"
          using Suc by simp
      qed
      show "\<forall>i<j'. (y # ys) ! j' < (y # ys) ! i"
      proof (intro allI impI)
        fix i assume "i < j'"
        then have "(x # y # ys) ! j < (x # y # ys) ! Suc i"
          using "3.prems"(3) Suc by auto
        then show "(y # ys) ! j' < (y # ys) ! i"
          using Suc by simp
      qed
    qed
    then show ?thesis
      using lt Suc by (simp add: Let_def)
  qed
qed

lemma in_set_alist_update:
  "(a, b) \<in> set (AList.update k v al) \<Longrightarrow> (a, b) = (k, v) \<or> (a, b) \<in> set al"
  by (induction al) (auto split: if_splits)

lemma match_tracks_other:
  "tid \<notin> fst ` set existing \<Longrightarrow>
   map_of (fst (match_tracks existing fs (asg, used))) tid = map_of asg tid"
proof (induction existing arbitrary: asg used)
  case Nil
  then show ?case by simp
next
  case (Cons e existing)
  obtain t h where e: "e = (t, h)" by (cases e)
  with Cons.prems have ne: "t \<noteq> tid" and rest: "tid \<notin> fst ` set existing"
    by auto
  show ?case
    using Cons.IH [OF rest] ne by (simp add: e Let_def AList.update_conv')
qed

lemma match_tracks_used_mono:
  "set used \<subseteq> set (snd (match_tracks existing fs (asg, used)))"
proof (induction existing arbitrary: asg used)
  case Nil
  then show ?case by simp
next
  case (Cons e existing)
  obtain t h where e: "e = (t, h)" by (cases e)
  show ?case
    using Cons.IH [of "List.insert (argmin (cost_row h fs)) used" "AList.update t (argmin (cost_row h fs)) asg"]
      Cons.IH [of used asg]
    by (auto simp: e Let_def)
qed

lemma match_tracks_hit:
  assumes "distinct (map fst existing)"
    and "(tid, h) \<in> set existing"
    and "fs \<noteq> []"
    and "cost_row h fs ! argmin (cost_row h fs) < 50"
  shows "map_of (fst (match_tracks existing fs (asg, used))) tid = Some (argmin (cost_row h fs))
       \<and> argmin (cost_row h fs) \<in> set (snd (match_tracks existing fs (asg, used)))"
  using assms(1,2)
proof (induction existing arbitrary: asg used)
  case Nil
  then show ?case by simp
next
  case (Cons e existing)
  obtain t0 h0 where e: "e = (t0, h0)" by (cases e)
  show ?case
  proof (cases "(tid, h) = (t0, h0)")
    case True
    then have notin: "tid \<notin> fst ` set existing"
      using Cons.prems(1) e by auto
    let ?j = "argmin (cost_row h fs)"
    have step: "match_tracks (e # existing) fs (asg, used) =
                match_tracks existing fs (AList.update tid ?j asg, List.insert ?j used)"
      using True e assms(3,4) by (simp add: Let_def)
    have "map_of (fst (match_tracks existing fs (AList.update tid ?j asg, List.insert ?j used))) tid
            = Some ?j"
      using match_tracks_other [OF notin] by (simp add: AList.update_conv')
    moreover have "?j \<in> set (snd (match_tracks existing fs (AList.update tid ?j asg, List.insert ?j used)))"
      using match_tracks_used_mono [of "List.insert ?j used" existing fs "AList.update tid ?j asg"]
      by auto
    ultimately show ?thesis
      by (simp only: step) 
  next
    case False
    then have mem: "(tid, h) \<in> set existing"
      using Cons.prems(2) e by auto
    have d: "distinct (map fst existing)"
      using Cons.prems(1) by simp
    show ?thesis
      using Cons.IH [OF d mem] assms(3) by (simp add: e Let_def)
  qed
qed

lemma match_tracks_pairs:
  assumes "(t, j) \<in> set (fst (match_tracks existing fs (asg, used)))"
  shows "(t, j) \<in> set asg
       \<or> (\<exists>h. (t, h) \<in> set existing \<and> argmin (cost_row h fs) = j \<and> cost_row h fs ! j < 50)"
  using assms
proof (induction existing arbitrary: asg used)
  case Nil
  then show ?case by simp
next
  case (Cons e existing)
  obtain t0 h0 where e: "e = (t0, h0)" by (cases e)
  show ?case
  proof (cases "fs \<noteq> [] \<and> cost_row h0 fs ! argmin (cost_row h0 fs) < 50")
    case True
    let ?j = "argmin (cost_row h0 fs)"
    from Cons.prems True have
      "(t, j) \<in> set (fst (match_tracks existing fs (AList.update t0 ?j asg, List.insert ?j used)))"
      by (simp add: e Let_def)
    from Cons.IH [OF this] show ?thesis
      using True e by (auto dest: in_set_alist_update)
  next
    case False
    then consider "fs = []" | "fs \<noteq> []" "\<not> cost_row h0 fs ! argmin (cost_row h0 fs) < 50"
      by blast
    then show ?thesis
    proof cases
      case 1
      then show ?thesis using Cons.prems by (simp add: e)
    next
      case 2
      with Cons.prems have "(t, j) \<in> set (fst (match_tracks existing fs (asg, used)))"
        by (simp add: e Let_def)
      from Cons.IH [OF this] show ?thesis by auto
    qed
  qed
qed

lemma match_tracks_distinct:
  "distinct (map fst asg) \<Longrightarrow> distinct (map fst (fst (match_tracks existing fs (asg, used))))"
proof (induction existing arbitrary: asg used)
  case Nil
  then show ?case by simp
next
  case (Cons e existing)
  obtain t0 h0 where e: "e = (t0, h0)" by (cases e)
  show ?case
    using Cons.IH [of asg used] Cons.IH [of "AList.update t0 (argmin (cost_row h0 fs)) asg"]
      Cons.prems
    by (auto simp: e Let_def AList.distinct_update)
qed

lemma assign_new_old_ids:
  "k < next_id \<Longrightarrow> map_of (fst (assign_new js used (asg, next_id))) k = map_of asg k"
  by (induction js arbitrary: asg next_id) (auto simp: AList.update_conv')

lemma assign_new_pairs:
  "(t, j) \<in> set (fst (assign_new js used (asg, next_id))) \<Longrightarrow>
   (t, j) \<in> set asg \<or> (j \<in> set js \<and> j \<notin> set used)"
proof (induction js arbitrary: asg next_id)
  case Nil
  then show ?case by simp
next
  case (Cons a js)
  show ?case
  proof (cases "a \<notin> set used")
    case True
    with Cons.prems have
      "(t, j) \<in> set (fst (assign_new js used (AList.update next_id a asg, next_id + 1)))"
      by simp
    from Cons.IH [OF this] show ?thesis
      using True by (auto dest: in_set_alist_update)
  next
    case False
    with Cons.prems have "(t, j) \<in> set (fst (assign_new js used (asg, next_id)))"
      by simp
    from Cons.IH [OF this] show ?thesis by auto
  qed
qed

lemma assign_new_distinct:
  "distinct (map fst asg) \<Longrightarrow> distinct (map fst (fst (assign_new js used (asg, next_id))))"
  by (induction js arbitrary: asg next_id) (auto simp: AList.distinct_update)

lemma update_track_result:
  "\<exists>fruit'. center fruit' = center (store ! j)
     \<and> update_track current_time maxlen tid j (fh, store, upd) =
         Some (AList.update tid
                 (append_maxlen maxlen (case map_of fh tid of None \<Rightarrow> [] | Some h \<Rightarrow> h)
                    (current_time, fst (center (store ! j)), snd (center (store ! j)))) fh,
               store[j := fruit'], upd @ [j])"
proof -
  let ?h = "append_maxlen maxlen (case map_of fh tid of None \<Rightarrow> [] | Some h \<Rightarrow> h)
              (current_time, fst (center (store ! j)), snd (center (store ! j)))"
  show ?thesis
  proof (cases "2 \<le> length ?h")
    case True
    obtain ph vx vy a where tp: "calculate_trajectory_parameters ?h = Some (ph, vx, vy, a)"
      using calculate_trajectory_parameters_total [of ?h] by (cases "calculate_trajectory_parameters ?h") auto
    let ?f = "(store ! j)\<lparr>track_id := Some tid, phase := Some ph,
                 predicted_pos := Some (predict_position (center (store ! j)) vx vy a),
                 velocity := Some (vx, vy)\<rparr>"
    have "update_track current_time maxlen tid j (fh, store, upd) =
            Some (AList.update tid ?h fh, store[j := ?f], upd @ [j])"
      using True tp by (simp add: update_track_def Let_def)
    moreover have "center ?f = center (store ! j)"
      by simp
    ultimately show ?thesis
      by blast
  next
    case False
    let ?f = "(store ! j)\<lparr>track_id := Some tid, phase := Some Unknown,
                 predicted_pos := Some (center (store ! j)), velocity := Some (0, 0)\<rparr>"
    have "update_track current_time maxlen tid j (fh, store, upd) =
            Some (AList.update tid ?h fh, store[j := ?f], upd @ [j])"
      using False by (simp add: update_track_def Let_def)
    moreover have "center ?f = center (store ! j)"
      by simp
    ultimately show ?thesis
      by blast
  qed
qed

lemma center_nth_list_update:
  "center f' = center (store ! i) \<Longrightarrow> center (store[i := f'] ! j) = center (store ! j)"
  by (cases "i < length store") (auto simp: nth_list_update list_update_beyond)

lemma update_loop_other:
  assumes "tid \<notin> fst ` set items" and "distinct (map fst fh)"
  shows "\<exists>fh' store' upd'. update_loop current_time maxlen items (fh, store, upd) = Some (fh', store', upd')
           \<and> map_of fh' tid = map_of fh tid \<and> distinct (map fst fh')"
  using assms
proof (induction items arbitrary: fh store upd)
  case Nil
  then show ?case by simp
next
  case (Cons it items)
  obtain t0 j0 where it: "it = (t0, j0)" by (cases it)
  from Cons.prems it have ne: "t0 \<noteq> tid" and rest: "tid \<notin> fst ` set items"
    by auto
  obtain f' where ut: "update_track current_time maxlen t0 j0 (fh, store, upd) =
         Some (AList.update t0
                 (append_maxlen maxlen (case map_of fh t0 of None \<Rightarrow> [] | Some h \<Rightarrow> h)
                    (current_time, fst (center (store ! j0)), snd (center (store ! j0)))) fh,
               store[j0 := f'], upd @ [j0])"
    using update_track_result [of store j0 current_time maxlen t0 fh upd] by blast
  let ?fh1 = "AList.update t0
                 (append_maxlen maxlen (case map_of fh t0 of None \<Rightarrow> [] | Some h \<Rightarrow> h)
                    (current_time, fst (center (store ! j0)), snd (center (store ! j0)))) fh"
  have d1: "distinct (map fst ?fh1)"
    using Cons.prems(2) by (rule AList.distinct_update)
  from Cons.IH [OF rest d1, of "store[j0 := f']" "upd @ [j0]"]
  obtain fh' store' upd' where
    "update_loop current_time maxlen items (?fh1, store[j0 := f'], upd @ [j0]) = Some (fh', store', upd')"
    "map_of fh' tid = map_of ?fh1 tid" "distinct (map fst fh')"
    by blast
  then show ?case
    using ut ne by (simp add: it AList.update_conv')
qed

lemma update_loop_track:
  assumes "distinct (map fst items)" and "(tid, j) \<in> set items" and "j < length store"
    and "distinct (map fst fh)"
  shows "\<exists>fh' store' upd'. update_loop current_time maxlen items (fh, store, upd) = Some (fh', store', upd')
           \<and> distinct (map fst fh')
           \<and> map_of fh' tid =
               Some (append_maxlen maxlen (case map_of fh tid of None \<Rightarrow> [] | Some h \<Rightarrow> h)
                      (current_time, fst (center (store ! j)), snd (center (store ! j))))"
  using assms
proof (induction items arbitrary: fh store upd)
  case Nil
  then show ?case by simp
next
  case (Cons it items)
  obtain t0 j0 where it: "it = (t0, j0)" by (cases it)
  obtain f' where cf: "center f' = center (store ! j0)"
    and ut: "update_track current_time maxlen t0 j0 (fh, store, upd) =
         Some (AList.update t0
                 (append_maxlen maxlen (case map_of fh t0 of None \<Rightarrow> [] | Some h \<Rightarrow> h)
                    (current_time, fst (center (store ! j0)), snd (center (store ! j0)))) fh,
               store[j0 := f'], upd @ [j0])"
    using update_track_result [of store j0 current_time maxlen t0 fh upd] by blast
  let ?fh1 = "AList.update t0
                 (append_maxlen maxlen (case map_of fh t0 of None \<Rightarrow> [] | Some h \<Rightarrow> h)
                    (current_time, fst (center (store ! j0)), snd (center (store ! j0)))) fh"
  have d1: "distinct (map fst ?fh1)"
    using Cons.prems(4) by (rule AList.distinct_update)
  show ?case
  proof (cases "t0 = tid")
    case True
    then have j0: "j0 = j" and rest: "tid \<notin> fst ` set items"
      using Cons.prems(1,2) it by (auto simp: image_iff)
    from update_loop_other [OF rest d1, of current_time maxlen "store[j0 := f']" "upd @ [j0]"]
    obtain fh' store' upd' where
      "update_loop current_time maxlen items (?fh1, store[j0 := f'], upd @ [j0]) = Some (fh', store', upd')"
      "map_of fh' tid = map_of ?fh1 tid" "distinct (map fst fh')"
      by blast
    then show ?thesis
      using ut True j0 by (simp add: it AList.update_conv')
  next
    case False
    then have mem: "(tid, j) \<in> set items"
      using Cons.prems(2) it by auto
    have d: "distinct (map fst items)"
      using Cons.prems(1) by simp
    have len: "j < length (store[j0 := f'])"
      using Cons.prems(3) by simp
    from Cons.IH [OF d mem len d1, of "upd @ [j0]"]
    obtain fh' store' upd' where
      "update_loop current_time maxlen items (?fh1, store[j0 := f'], upd @ [j0]) = Some (fh', store', upd')"
      "distinct (map fst fh')"
      "map_of fh' tid =
         Some (append_maxlen maxlen (case map_of ?fh1 tid of None \<Rightarrow> [] | Some h \<Rightarrow> h)
                (current_time, fst (center (store[j0 := f'] ! j)), snd (center (store[j0 := f'] ! j))))"
      by blast
    then show ?thesis
      using ut False center_nth_list_update [OF cf, of j]
      by (simp add: it AList.update_conv')
  qed
qed

lemma last_append_maxlen:
  assumes "append_maxlen n h s \<noteq> []"
  shows "last (append_maxlen n h s) = s"
proof -
  let ?xs = "h @ [s]"
  have "drop (length ?xs - n) ?xs \<noteq> []"
    using assms unfolding append_maxlen_def .
  then have "\<not> length ?xs \<le> length ?xs - n"
    unfolding drop_eq_Nil .
  then have "length ?xs - n < length ?xs"
    by (rule not_le_imp_less)
  then have "last (drop (length ?xs - n) ?xs) = last ?xs"
    by (rule last_drop)
  then show ?thesis
    by (simp only: append_maxlen_def last_snoc)
qed

lemma clean_old_tracks_keeps_fresh:
  assumes "distinct (map fst fh)" and "map_of fh tid = Some h"
    and "h \<noteq> [] \<longrightarrow> \<not> t - fst (last h) > 1"
  shows "map_of (clean_old_tracks t fh) tid = Some h"
proof -
  have "(tid, h) \<in> set fh"
    using assms(2) by (rule map_of_SomeD)
  then have "(tid, h) \<in> set (clean_old_tracks t fh)"
    using clean_old_tracks_member [OF assms(1), of tid h t] assms(3) by blast
  moreover have "distinct (map fst (clean_old_tracks t fh))"
    using assms(1) by (rule distinct_clean_old_tracks)
  ultimately show ?thesis
    by simp
qed

lemma length_cost_row [simp]: "length (cost_row h fs) = length fs"
  by (simp add: cost_row_def)

text \<open>
  Claim C9, as the code has it. Each track takes at most one detection per frame, the
  first nearest one of its row. So let a detection lie within 50 pixels of the last
  position of a track, let it be that track's first nearest detection of the frame, and
  let no other track have it within 50 pixels. Then the association gives the detection
  to that track under the track's id, no other id (old or new) is given to it, and after
  \<^verbatim>\<open>update\<close> the history of the track is the old history with the detection appended.
  The table is a dict (its keys are distinct) and every id in it is below
  \<^verbatim>\<open>next_track_id\<close>.
\<close>

theorem C9_nearest_detection_extends_track:
  assumes "distinct (map fst (fruit_history st))"
    and "\<forall>(t, h) \<in> set (fruit_history st). t < next_track_id st"
    and "(tid, history) \<in> set (fruit_history st)"
    and "j < length current_fruits"
    and "cost_row history current_fruits ! j < 50"
    and "\<forall>i < length current_fruits.
           cost_row history current_fruits ! j \<le> cost_row history current_fruits ! i"
    and "\<forall>i < j. cost_row history current_fruits ! j < cost_row history current_fruits ! i"
    and "\<forall>(t, h) \<in> set (fruit_history st). t \<noteq> tid \<longrightarrow> \<not> cost_row h current_fruits ! j < 50"
  shows "map_of (fst (assign_track_ids st current_fruits)) tid = Some j
       \<and> (\<forall>t. (t, j) \<in> set (fst (assign_track_ids st current_fruits)) \<longrightarrow> t = tid)
       \<and> (\<exists>out st'. update st current_fruits current_time = Some (out, st')
             \<and> map_of (fruit_history st') tid =
                 Some (append_maxlen (max_history st) history
                        (current_time, fst (center (current_fruits ! j)),
                         snd (center (current_fruits ! j)))))"
proof -
  let ?fs = current_fruits
  let ?fh = "fruit_history st"
  have fs_ne: "?fs \<noteq> []" and fh_ne: "?fh \<noteq> []"
    using assms(3,4) by auto
  have am: "argmin (cost_row history ?fs) = j"
    using assms(4,6,7) by (intro argmin_eqI) simp_all
  obtain matched used where mt: "match_tracks ?fh ?fs ([], []) = (matched, used)"
    by (cases "match_tracks ?fh ?fs ([], [])")
  obtain assigned nid where an:
    "assign_new [0..<length ?fs] used (matched, next_track_id st) = (assigned, nid)"
    by (cases "assign_new [0..<length ?fs] used (matched, next_track_id st)")
  have ati: "assign_track_ids st ?fs = (assigned, st\<lparr>next_track_id := nid\<rparr>)"
    using fh_ne mt an by (simp add: assign_track_ids_def)
  have hit: "map_of matched tid = Some j" "j \<in> set used"
    using match_tracks_hit [OF assms(1,3) fs_ne, of "[]" "[]"] assms(5) am mt by simp_all
  have tid_old: "tid < next_track_id st"
    using assms(2,3) by auto
  have A: "map_of assigned tid = Some j"
    using assign_new_old_ids [OF tid_old, of "[0..<length ?fs]" used matched] an hit(1) by simp
  have B: "t = tid" if mem: "(t, j) \<in> set assigned" for t
  proof -
    from mem an have "(t, j) \<in> set (fst (assign_new [0..<length ?fs] used (matched, next_track_id st)))"
      by simp
    from assign_new_pairs [OF this] hit(2) have "(t, j) \<in> set matched"
      by blast
    with mt have "(t, j) \<in> set (fst (match_tracks ?fh ?fs ([], [])))"
      by simp
    from match_tracks_pairs [OF this] obtain h where
      "(t, h) \<in> set ?fh" "cost_row h ?fs ! j < 50"
      by auto
    with assms(8) show "t = tid"
      by auto
  qed
  have d_matched: "distinct (map fst matched)"
    using match_tracks_distinct [of "[]" ?fh ?fs "[]"] mt by simp
  have d_assigned: "distinct (map fst assigned)"
    using assign_new_distinct [OF d_matched, of "[0..<length ?fs]" used "next_track_id st"] an by simp
  have mem: "(tid, j) \<in> set assigned"
    using A by (rule map_of_SomeD)
  have old: "map_of ?fh tid = Some history"
    using assms(1,3) by simp
  let ?h = "append_maxlen (max_history st) history
              (current_time, fst (center (?fs ! j)), snd (center (?fs ! j)))"
  from update_loop_track [OF d_assigned mem assms(4) assms(1), of current_time "max_history st" "[]"]
  obtain fh' store' upd' where loop:
    "update_loop current_time (max_history st) assigned (?fh, ?fs, []) = Some (fh', store', upd')"
    "distinct (map fst fh')" "map_of fh' tid = Some ?h"
    using old by auto
  have fresh: "?h \<noteq> [] \<longrightarrow> \<not> current_time - fst (last ?h) > 1"
    using last_append_maxlen [of "max_history st" history
        "(current_time, fst (center (?fs ! j)), snd (center (?fs ! j)))"]
    by auto
  have kept: "map_of (clean_old_tracks current_time fh') tid = Some ?h"
    using loop(2,3) fresh by (rule clean_old_tracks_keeps_fresh)
  have C: "update st ?fs current_time =
             Some (map (\<lambda>j. store' ! j) upd',
                   st\<lparr>next_track_id := nid, fruit_history := clean_old_tracks current_time fh'\<rparr>)"
    using ati loop(1) by (simp add: update_def)
  show ?thesis
  proof (intro conjI allI impI)
    show "map_of (fst (assign_track_ids st ?fs)) tid = Some j"
      using A ati by simp
    show "t = tid" if "(t, j) \<in> set (fst (assign_track_ids st ?fs))" for t
      using that B ati by simp
    show "\<exists>out st'. update st ?fs current_time = Some (out, st') \<and> map_of (fruit_history st') tid = Some ?h"
      using C kept by simp
  qed
qed

lemma all_less_2: "(\<forall>i<2. P i) \<longleftrightarrow> P 0 \<and> P (Suc 0)"
  by (auto simp: less_2_cases_iff)

theorem C9_nearest_detection_extends_track_witness:
  "distinct (map fst (fruit_history c9_tracker))
   \<and> (0, [(0, 0, 0)]) \<in> set (fruit_history c9_tracker)
   \<and> cost_row [(0, 0, 0)] [cv_detection 1 0, cv_detection 10 0] = [1, 10]
   \<and> map_of (fst (assign_track_ids c9_tracker [cv_detection 1 0, cv_detection 10 0])) 0 = Some 0
   \<and> map_of (fruit_history (snd (the (update c9_tracker [cv_detection 1 0, cv_detection 10 0] 0.1)))) 0
        = Some [(0, 0, 0), (0.1, 1, 0)]"
  using C9_nearest_detection_extends_track [of c9_tracker 0 "[(0, 0, 0)]" 0
      "[cv_detection 1 0, cv_detection 10 0]" "0.1"]
  by (simp add: c9_tracker_def tracker_eval AList.delete_eq all_less_2)

subsection \<open>The invariant of the table\<close>

text \<open>
  The initial tracker satisfies the invariant and every call of \<^verbatim>\<open>update\<close> returns
  and keeps it, so the assumptions made on the table above hold in every state the
  tracker reaches.
\<close>

lemma tracker_inv_init: "tracker_inv init_tracker"
  by (simp add: tracker_inv_def init_tracker_def)

lemma match_tracks_keys:
  "fst ` set (fst (match_tracks existing fs (asg, used))) \<subseteq> fst ` set asg \<union> fst ` set existing"
proof
  fix t assume "t \<in> fst ` set (fst (match_tracks existing fs (asg, used)))"
  then obtain j where "(t, j) \<in> set (fst (match_tracks existing fs (asg, used)))"
    by auto
  from match_tracks_pairs [OF this] show "t \<in> fst ` set asg \<union> fst ` set existing"
    by (auto simp: image_iff) force+
qed

lemma assign_new_keys:
  "next_id \<le> snd (assign_new js used (asg, next_id))
   \<and> fst ` set (fst (assign_new js used (asg, next_id)))
        \<subseteq> fst ` set asg \<union> {next_id ..< snd (assign_new js used (asg, next_id))}"
proof (induction js arbitrary: asg next_id)
  case Nil
  then show ?case by simp
next
  case (Cons a js)
  show ?case
  proof (cases "a \<notin> set used")
    case True
    have "fst ` set (AList.update next_id a asg) = insert next_id (fst ` set asg)"
      by (simp add: AList.dom_update)
    then show ?thesis
      using Cons.IH [of "next_id + 1" "AList.update next_id a asg"] True
      by (auto simp del: AList.dom_update)
  next
    case False
    then show ?thesis
      using Cons.IH [of next_id asg] by simp
  qed
qed

lemma assign_track_ids_keys:
  assumes "assign_track_ids st fs = (assigned, st1)"
  shows "next_track_id st \<le> next_track_id st1
       \<and> fruit_history st1 = fruit_history st \<and> max_history st1 = max_history st
       \<and> fst ` set assigned \<subseteq> fst ` set (fruit_history st) \<union> {next_track_id st ..< next_track_id st1}"
proof -
  obtain matched used where mt:
    "(if fruit_history st = [] then ([], []) else match_tracks (fruit_history st) fs ([], []))
       = (matched, used)"
    by (cases "if fruit_history st = [] then ([], []) else match_tracks (fruit_history st) fs ([], [])")
  obtain asg nid where an:
    "assign_new [0..<length fs] used (matched, next_track_id st) = (asg, nid)"
    by (cases "assign_new [0..<length fs] used (matched, next_track_id st)")
  have res: "assigned = asg" "st1 = st\<lparr>next_track_id := nid\<rparr>"
    using assms mt an by (auto simp: assign_track_ids_def split: if_splits)
  have mk: "fst ` set matched \<subseteq> fst ` set (fruit_history st)"
    using match_tracks_keys [of "fruit_history st" fs "[]" "[]"] mt by (auto split: if_splits)
  have nk: "next_track_id st \<le> nid"
    "fst ` set asg \<subseteq> fst ` set matched \<union> {next_track_id st ..< nid}"
    using assign_new_keys [of "next_track_id st" "[0..<length fs]" used matched] an by simp_all
  have "fst ` set asg \<subseteq> fst ` set (fruit_history st) \<union> {next_track_id st ..< nid}"
    using nk(2) mk by blast
  then show ?thesis
    using nk(1) by (simp add: res)
qed

lemma update_loop_keys:
  assumes "distinct (map fst fh)"
  shows "\<exists>fh' store' upd'. update_loop current_time maxlen items (fh, store, upd) = Some (fh', store', upd')
           \<and> distinct (map fst fh')
           \<and> fst ` set fh' = fst ` set fh \<union> fst ` set items"
  using assms
proof (induction items arbitrary: fh store upd)
  case Nil
  then show ?case by simp
next
  case (Cons it items)
  obtain t0 j0 where it: "it = (t0, j0)" by (cases it)
  obtain f' where ut: "update_track current_time maxlen t0 j0 (fh, store, upd) =
         Some (AList.update t0
                 (append_maxlen maxlen (case map_of fh t0 of None \<Rightarrow> [] | Some h \<Rightarrow> h)
                    (current_time, fst (center (store ! j0)), snd (center (store ! j0)))) fh,
               store[j0 := f'], upd @ [j0])"
    using update_track_result [of store j0 current_time maxlen t0 fh upd] by blast
  let ?fh1 = "AList.update t0
                 (append_maxlen maxlen (case map_of fh t0 of None \<Rightarrow> [] | Some h \<Rightarrow> h)
                    (current_time, fst (center (store ! j0)), snd (center (store ! j0)))) fh"
  have d1: "distinct (map fst ?fh1)"
    using Cons.prems by (rule AList.distinct_update)
  have k1: "fst ` set ?fh1 = insert t0 (fst ` set fh)"
    by (simp add: AList.dom_update)
  from Cons.IH [OF d1, of "store[j0 := f']" "upd @ [j0]"]
  obtain fh' store' upd' where
    "update_loop current_time maxlen items (?fh1, store[j0 := f'], upd @ [j0]) = Some (fh', store', upd')"
    "distinct (map fst fh')" "fst ` set fh' = fst ` set ?fh1 \<union> fst ` set items"
    by blast
  then show ?case
    using ut k1 by (auto simp: it)
qed

lemma clean_old_tracks_subset: "set (clean_old_tracks t fh) \<subseteq> set fh"
  by (auto simp: clean_old_tracks_filter)

lemma update_total_inv:
  assumes "tracker_inv st"
  shows "\<exists>out st'. update st fs t = Some (out, st') \<and> tracker_inv st'
           \<and> next_track_id st \<le> next_track_id st' \<and> max_history st' = max_history st"
proof -
  obtain assigned st1 where ati: "assign_track_ids st fs = (assigned, st1)"
    by (cases "assign_track_ids st fs")
  note k = assign_track_ids_keys [OF ati]
  have d: "distinct (map fst (fruit_history st1))"
    using assms k by (simp add: tracker_inv_def)
  from update_loop_keys [OF d, of t "max_history st1" assigned fs "[]"]
  obtain fh' store' upd' where loop:
    "update_loop t (max_history st1) assigned (fruit_history st1, fs, []) = Some (fh', store', upd')"
    "distinct (map fst fh')" "fst ` set fh' = fst ` set (fruit_history st1) \<union> fst ` set assigned"
    by blast
  let ?st' = "st1\<lparr>fruit_history := clean_old_tracks t fh'\<rparr>"
  have upd: "update st fs t = Some (map (\<lambda>j. store' ! j) upd', ?st')"
    using ati loop(1) by (simp add: update_def)
  have keys: "fst ` set fh' \<subseteq> {..< next_track_id st1}"
  proof
    fix x assume "x \<in> fst ` set fh'"
    moreover have "fst ` set fh' \<subseteq> fst ` set (fruit_history st) \<union> {next_track_id st ..< next_track_id st1}"
      using loop(3) k by (simp only:) blast
    ultimately consider "x \<in> fst ` set (fruit_history st)" | "x \<in> {next_track_id st ..< next_track_id st1}"
      by blast
    then show "x \<in> {..< next_track_id st1}"
    proof cases
      case 1
      then have "x < next_track_id st"
        using assms by (auto simp: tracker_inv_def)
      then show ?thesis using k by simp
    next
      case 2
      then show ?thesis by simp
    qed
  qed
  have "tracker_inv ?st'"
    unfolding tracker_inv_def
  proof (intro conjI)
    show "distinct (map fst (fruit_history ?st'))"
      using loop(2) by (simp add: distinct_clean_old_tracks)
    show "\<forall>(t, h) \<in> set (fruit_history ?st'). t < next_track_id ?st'"
      using keys clean_old_tracks_subset [of t fh'] by (auto simp: image_iff) force
  qed
  then show ?thesis
    using upd k by simp
qed

end
